theory Spec2Isabelle
  imports Main "HOL-Library.AList" "HOL-Library.Multiset" "HOL-Library.Char_ord"
    "HOL-Library.List_Lexorder"
begin

section \<open>Cache service: data model\<close>

text \<open>
  The records of \<^verbatim>\<open>types.ts\<close>. An optional field is an \<open>option\<close>. The field
  \<^verbatim>\<open>id\<close> is suffixed, since \<open>id\<close> is a constant of HOL.
\<close>

record Business =
  id_business :: string
  category :: string
  shopName :: string
  ownerName :: string
  contactNumber :: string
  address :: "string option"
  openingHours :: "string option"
  services :: "string list option"
  homeDelivery :: "bool option"
  paymentOptions :: "string list option"

text \<open>\<^verbatim>\<open>Business & { _synced_at: number }\<close>: the value type of the businesses store.\<close>

record CachedBusiness = Business +
  synced_at :: int

record Category =
  id_category :: string
  name_category :: string
  icon :: string

record DataVersion =
  business_count :: int
  last_updated :: string
  last_sync :: int

text \<open>
  An entry of the metadata store. Its \<^verbatim>\<open>value\<close> field has type \<^verbatim>\<open>any\<close> in the
  source; the only writer is \<^verbatim>\<open>setLocalVersion\<close>, so the model stores a
  \<open>DataVersion\<close> there.
\<close>

record MetaEntry =
  key :: string
  val :: DataVersion
  updated_at :: int

datatype SyncAction = no_change | full_sync | incremental_sync

record SyncResult =
  action :: SyncAction
  businesses :: "Business list"
  categories :: "Category list"
  fromCache :: bool

subsection \<open>Object stores\<close>

text \<open>
  An IndexedDB object store with an in-line key: at most one value per key, \<^verbatim>\<open>put\<close>
  overwrites the value stored under the same key, \<^verbatim>\<open>getAll\<close> returns the values in
  ascending key order.
\<close>

type_synonym 'v object_store = "(string \<times> 'v) list"

definition store_put :: "('v \<Rightarrow> string) \<Rightarrow> 'v \<Rightarrow> 'v object_store \<Rightarrow> 'v object_store" where
  "store_put keyPath v s = AList.update (keyPath v) v s"

definition store_get :: "string \<Rightarrow> 'v object_store \<Rightarrow> 'v option" where
  "store_get k s = map_of s k"

definition store_getAll :: "'v object_store \<Rightarrow> 'v list" where
  "store_getAll s = map snd (sort_key fst s)"

subsection \<open>State, environment and the program monad\<close>

text \<open>
  The three places of the cache service that read the clock with \<^verbatim>\<open>Date.now()\<close>:
  the argument of \<^verbatim>\<open>setLocalVersion\<close> in \<^verbatim>\<open>smartSync\<close>, the entry written by
  \<^verbatim>\<open>setMetadata\<close>, and the timestamp of \<^verbatim>\<open>setCachedBusinesses\<close>.
\<close>

datatype clock_site = Clock_smartSync | Clock_setMetadata | Clock_setCachedBusinesses

text \<open>
  What a run of the cache service can observe but not decide: the value that the n-th
  reading of the clock at each place returns, and which requests to IndexedDB fail (the
  n-th request of the run fails iff \<open>idb_fails n\<close>). Nothing is assumed about the order
  in time of readings taken at different places.
\<close>

record env =
  date_now :: "clock_site \<Rightarrow> nat \<Rightarrow> int"
  idb_fails :: "nat \<Rightarrow> bool"

text \<open>
  The trace lists the calls whose number the specification counts: the two remote
  accessors handed to \<^verbatim>\<open>smartSync\<close> and the three writers of the local store.
\<close>

datatype call =
  Call_fetchRemoteVersion
  | Call_fetchAllData
  | Call_setCachedBusinesses
  | Call_setCachedCategories
  | Call_setMetadata string

record world =
  dbInstance :: bool
  businesses_store :: "CachedBusiness object_store"
  categories_store :: "Category object_store"
  metadata_store :: "MetaEntry object_store"
  clock_reads :: "clock_site \<Rightarrow> nat"
  idb_requests :: nat
  trace :: "call list"

datatype error = RemoteFailure | StoreFailure

text \<open>
  An asynchronous function: it runs from a state and either returns a value (\<open>Inr\<close>) or
  throws (\<open>Inl\<close>); the state it leaves behind is kept in both cases.
\<close>

type_synonym 'a prog = "world \<Rightarrow> (error + 'a) \<times> world"

definition ret :: "'a \<Rightarrow> 'a prog" where
  "ret x = (\<lambda>w. (Inr x, w))"

definition andThen :: "'a prog \<Rightarrow> ('a \<Rightarrow> 'b prog) \<Rightarrow> 'b prog" where
  "andThen m f = (\<lambda>w. case m w of (Inl e, w') \<Rightarrow> (Inl e, w') | (Inr x, w') \<Rightarrow> f x w')"

definition try_catch :: "'a prog \<Rightarrow> (error \<Rightarrow> 'a prog) \<Rightarrow> 'a prog" where
  "try_catch m h = (\<lambda>w. case m w of (Inl e, w') \<Rightarrow> h e w' | (Inr x, w') \<Rightarrow> (Inr x, w'))"

text \<open>
  \<^verbatim>\<open>Promise.all\<close>: every member has been started when the array is built, so all of
  them run whether or not another one rejects, and the result is the first rejection if
  there is one. In the program the members take turns at their \<^verbatim>\<open>await\<close>s. The members
  used here work on different object stores and read the clock at different places, so
  what each one reads and writes does not depend on the turns; the model runs them to
  completion in array order. The order in which their requests reach IndexedDB, and with
  it the number that a request has in \<open>idb_fails\<close>, is one of the possible orders.
\<close>

definition promise_all2 :: "'a prog \<Rightarrow> 'b prog \<Rightarrow> ('a \<times> 'b) prog" where
  "promise_all2 p q = (\<lambda>w.
     case p w of (r1, w1) \<Rightarrow>
     case q w1 of (r2, w2) \<Rightarrow>
       (case r1 of Inl e \<Rightarrow> Inl e
        | Inr a \<Rightarrow> (case r2 of Inl e \<Rightarrow> Inl e | Inr b \<Rightarrow> Inr (a, b)), w2))"

definition promise_all3 :: "'a prog \<Rightarrow> 'b prog \<Rightarrow> 'c prog \<Rightarrow> ('a \<times> 'b \<times> 'c) prog" where
  "promise_all3 p q r = promise_all2 p (promise_all2 q r)"

fun for_each :: "('a \<Rightarrow> unit prog) \<Rightarrow> 'a list \<Rightarrow> unit prog" where
  "for_each f [] = ret ()"
| "for_each f (x # xs) = andThen (f x) (\<lambda>_. for_each f xs)"

definition Date_now :: "env \<Rightarrow> clock_site \<Rightarrow> int prog" where
  "Date_now e site = (\<lambda>w.
     (Inr (date_now e site (clock_reads w site)),
      w\<lparr>clock_reads := (clock_reads w)(site := Suc (clock_reads w site))\<rparr>))"

definition log_call :: "call \<Rightarrow> unit prog" where
  "log_call c = (\<lambda>w. (Inr (), w\<lparr>trace := trace w @ [c]\<rparr>))"

text \<open>One request to IndexedDB: it fails as the environment says, or has its effect.\<close>

definition idb_request :: "env \<Rightarrow> (world \<Rightarrow> 'a \<times> world) \<Rightarrow> 'a prog" where
  "idb_request e eff = (\<lambda>w.
     let w1 = w\<lparr>idb_requests := Suc (idb_requests w)\<rparr>
     in if idb_fails e (idb_requests w) then (Inl StoreFailure, w1)
        else (case eff w1 of (x, w2) \<Rightarrow> (Inr x, w2)))"

text \<open>
  A read-write transaction on one object store: IndexedDB aborts the transaction when one
  of its requests fails, which undoes what the transaction wrote to the store.
\<close>

definition transaction :: "(world \<Rightarrow> world \<Rightarrow> world) \<Rightarrow> 'a prog \<Rightarrow> 'a prog" where
  "transaction undo m = (\<lambda>w.
     case m w of (Inl e, w') \<Rightarrow> (Inl e, undo w w') | (Inr x, w') \<Rightarrow> (Inr x, w'))"

section \<open>Cache service: operations\<close>

definition initDB :: "env \<Rightarrow> unit prog" where
  "initDB e = (\<lambda>w.
     if dbInstance w then (Inr (), w)
     else idb_request e (\<lambda>w'. ((), w'\<lparr>dbInstance := True\<rparr>)) w)"

definition getMetadata :: "env \<Rightarrow> string \<Rightarrow> DataVersion option prog" where
  "getMetadata e k =
     andThen (initDB e) (\<lambda>_.
     andThen (idb_request e (\<lambda>w. (store_get k (metadata_store w), w))) (\<lambda>data.
     ret (case data of Some d \<Rightarrow> Some (val d) | None \<Rightarrow> None)))"

definition setMetadata :: "env \<Rightarrow> string \<Rightarrow> DataVersion \<Rightarrow> unit prog" where
  "setMetadata e k v =
     andThen (log_call (Call_setMetadata k)) (\<lambda>_.
     andThen (initDB e) (\<lambda>_.
     andThen (Date_now e Clock_setMetadata) (\<lambda>now.
     idb_request e (\<lambda>w. ((), w\<lparr>metadata_store :=
       store_put key \<lparr>key = k, val = v, updated_at = now\<rparr> (metadata_store w)\<rparr>)))))"

definition getLocalVersion :: "env \<Rightarrow> DataVersion option prog" where
  "getLocalVersion e = getMetadata e ''data_version''"

definition setLocalVersion :: "env \<Rightarrow> DataVersion \<Rightarrow> unit prog" where
  "setLocalVersion e version = setMetadata e ''data_version'' version"

definition getCachedCategories :: "env \<Rightarrow> Category list prog" where
  "getCachedCategories e =
     andThen (initDB e) (\<lambda>_.
     idb_request e (\<lambda>w. (store_getAll (categories_store w), w)))"

definition setCachedCategories :: "env \<Rightarrow> Category list \<Rightarrow> unit prog" where
  "setCachedCategories e cs =
     andThen (log_call Call_setCachedCategories) (\<lambda>_.
     andThen (initDB e) (\<lambda>_.
     transaction (\<lambda>w w'. w'\<lparr>categories_store := categories_store w\<rparr>)
       (andThen (idb_request e (\<lambda>w. ((), w\<lparr>categories_store := []\<rparr>))) (\<lambda>_.
        andThen (for_each (\<lambda>c. idb_request e (\<lambda>w. ((), w\<lparr>categories_store :=
                   store_put id_category c (categories_store w)\<rparr>))) cs) (\<lambda>_.
        idb_request e (\<lambda>w. ((), w)))))))"

definition getCachedBusinesses :: "env \<Rightarrow> Business list prog" where
  "getCachedBusinesses e =
     andThen (initDB e) (\<lambda>_.
     andThen (idb_request e (\<lambda>w. (store_getAll (businesses_store w), w))) (\<lambda>bs.
     ret (map Business.truncate bs)))"

definition setCachedBusinesses :: "env \<Rightarrow> Business list \<Rightarrow> unit prog" where
  "setCachedBusinesses e bs =
     andThen (log_call Call_setCachedBusinesses) (\<lambda>_.
     andThen (initDB e) (\<lambda>_.
     transaction (\<lambda>w w'. w'\<lparr>businesses_store := businesses_store w\<rparr>)
       (andThen (idb_request e (\<lambda>w. ((), w\<lparr>businesses_store := []\<rparr>))) (\<lambda>_.
        andThen (Date_now e Clock_setCachedBusinesses) (\<lambda>now.
        andThen (for_each (\<lambda>b. idb_request e (\<lambda>w. ((), w\<lparr>businesses_store :=
                   store_put id_business (Business.extend b (CachedBusiness.fields now))
                     (businesses_store w)\<rparr>))) bs) (\<lambda>_.
        idb_request e (\<lambda>w. ((), w))))))))"

subsection \<open>Sync strategy\<close>

definition checkSyncNeeded :: "env \<Rightarrow> DataVersion \<Rightarrow> SyncAction prog" where
  "checkSyncNeeded e remoteVersion =
     andThen (getLocalVersion e) (\<lambda>localVersion.
       case localVersion of
         None \<Rightarrow> ret full_sync
       | Some lv \<Rightarrow>
           if business_count lv \<noteq> business_count remoteVersion then ret full_sync
           else if last_updated lv \<noteq> last_updated remoteVersion then ret full_sync
           else ret no_change)"

text \<open>
  The two accessors handed to \<^verbatim>\<open>smartSync\<close> are remote reads; the model takes the
  outcome of calling each (a value or a thrown error) and records the call.
\<close>

definition call_accessor :: "call \<Rightarrow> error + 'a \<Rightarrow> 'a prog" where
  "call_accessor c outcome = (\<lambda>w. (outcome, w\<lparr>trace := trace w @ [c]\<rparr>))"

text \<open>
  The body of the \<^verbatim>\<open>try\<close> block of \<^verbatim>\<open>smartSync\<close>. The \<^verbatim>\<open>Date.now()\<close> in
  the argument of \<^verbatim>\<open>setLocalVersion\<close> is read when the array handed to
  \<^verbatim>\<open>Promise.all\<close> in step 4 is built.
\<close>

definition smartSync_try ::
  "env \<Rightarrow> error + DataVersion \<Rightarrow> error + (Business list \<times> Category list) \<Rightarrow> SyncResult prog" where
  "smartSync_try e fetchRemoteVersion fetchAllData =
     andThen (call_accessor Call_fetchRemoteVersion fetchRemoteVersion) (\<lambda>remoteVersion.
     andThen (checkSyncNeeded e remoteVersion) (\<lambda>syncAction.
       if syncAction = no_change then
         andThen (promise_all2 (getCachedBusinesses e) (getCachedCategories e)) (\<lambda>(bs, cs).
         ret \<lparr>action = no_change, businesses = bs, categories = cs, fromCache = True\<rparr>)
       else
         andThen (call_accessor Call_fetchAllData fetchAllData) (\<lambda>(bs, cs).
         andThen (Date_now e Clock_smartSync) (\<lambda>now.
         andThen (promise_all3 (setCachedBusinesses e bs) (setCachedCategories e cs)
                    (setLocalVersion e (remoteVersion\<lparr>last_sync := now\<rparr>))) (\<lambda>_.
         ret \<lparr>action = full_sync, businesses = bs, categories = cs, fromCache = False\<rparr>)))))"

text \<open>The \<^verbatim>\<open>catch\<close> block of \<^verbatim>\<open>smartSync\<close>.\<close>

definition smartSync_catch :: "env \<Rightarrow> error \<Rightarrow> SyncResult prog" where
  "smartSync_catch e err =
     andThen (promise_all2 (getCachedBusinesses e) (getCachedCategories e)) (\<lambda>(bs, cs).
     ret \<lparr>action = no_change, businesses = bs, categories = cs, fromCache = True\<rparr>)"

definition smartSync ::
  "env \<Rightarrow> error + DataVersion \<Rightarrow> error + (Business list \<times> Category list) \<Rightarrow> SyncResult prog" where
  "smartSync e fetchRemoteVersion fetchAllData =
     try_catch (smartSync_try e fetchRemoteVersion fetchAllData) (smartSync_catch e)"

section \<open>Remote service: the data version\<close>

text \<open>
  What a query of the remote client resolves to: the \<^verbatim>\<open>data\<close>, \<^verbatim>\<open>count\<close> and
  \<^verbatim>\<open>error\<close> fields that \<^verbatim>\<open>getDataVersion\<close> reads. A query can also throw,
  which is the \<open>Inl\<close> case of its outcome.
\<close>

record PostgrestError =
  code :: string

record 'a PostgrestResponse =
  resp_data :: "'a option"
  resp_count :: "int option"
  resp_error :: "PostgrestError option"

text \<open>The row selected by the second query: its \<^verbatim>\<open>updated_at\<close> column.\<close>

record UpdatedRow =
  updated_at_row :: "string option"

text \<open>
  \<^verbatim>\<open>getDataVersion\<close>. The outcomes of its two queries are arguments, and so are the
  two readings of the clock in the \<^verbatim>\<open>return\<close> statement that is executed:
  \<open>stamp\<close> for \<^verbatim>\<open>new Date().toISOString()\<close> and \<open>now\<close> for \<^verbatim>\<open>Date.now()\<close>.
  The second query is issued only when the first has not failed.
\<close>

definition getDataVersion_try ::
  "error + unit PostgrestResponse \<Rightarrow> error + UpdatedRow PostgrestResponse \<Rightarrow> string \<Rightarrow> int
     \<Rightarrow> error + DataVersion" where
  "getDataVersion_try countQuery updatedQuery stamp now =
     (case countQuery of
        Inl thrown \<Rightarrow> Inl thrown
      | Inr r1 \<Rightarrow>
          (case resp_error r1 of
             Some countError \<Rightarrow> Inl RemoteFailure
           | None \<Rightarrow>
               (case updatedQuery of
                  Inl thrown \<Rightarrow> Inl thrown
                | Inr r2 \<Rightarrow>
                    if (case resp_error r2 of
                          Some updateError \<Rightarrow> code updateError \<noteq> ''PGRST116''
                        | None \<Rightarrow> False)
                    then Inl RemoteFailure
                    else Inr \<lparr>business_count =
                                (case resp_count r1 of
                                   Some n \<Rightarrow> if n \<noteq> 0 then n else 0
                                 | None \<Rightarrow> 0),
                              last_updated =
                                (case resp_data r2 of
                                   Some row \<Rightarrow>
                                     (case updated_at_row row of
                                        Some u \<Rightarrow> if u \<noteq> [] then u else stamp
                                      | None \<Rightarrow> stamp)
                                 | None \<Rightarrow> stamp),
                              last_sync = now\<rparr>)))"

definition getDataVersion ::
  "error + unit PostgrestResponse \<Rightarrow> error + UpdatedRow PostgrestResponse \<Rightarrow> string \<Rightarrow> int
     \<Rightarrow> error + DataVersion" where
  "getDataVersion countQuery updatedQuery stamp now =
     (case getDataVersion_try countQuery updatedQuery stamp now of
        Inr version \<Rightarrow> Inr version
      | Inl err \<Rightarrow> Inr \<lparr>business_count = 0, last_updated = stamp, last_sync = now\<rparr>)"

section \<open>Analytics client\<close>

text \<open>The two environment variables, with \<^verbatim>\<open>''\<close> standing for an unset one.\<close>

record config =
  analyticsUrl :: string
  analyticsAnonKey :: string

definition isAnalyticsEnabled :: "config \<Rightarrow> bool" where
  "isAnalyticsEnabled c = (analyticsUrl c \<noteq> [] \<and> analyticsAnonKey c \<noteq> [])"

definition analyticsClient :: "config \<Rightarrow> (string \<times> string) option" where
  "analyticsClient c =
     (if isAnalyticsEnabled c then Some (analyticsUrl c, analyticsAnonKey c) else None)"

text \<open>
  \<^verbatim>\<open>safeAnalyticsOperation\<close>, as far as the first suspension of the operation: the
  operation is skipped without a client, and started otherwise. What the operation does
  after a request it awaits has thrown (nothing: the error is caught here) is part of
  the step that delivers the response.
\<close>

definition safeAnalyticsOperation :: "config \<Rightarrow> ('s \<Rightarrow> 's) \<Rightarrow> 's \<Rightarrow> 's" where
  "safeAnalyticsOperation c operation s =
     (if analyticsClient c = None \<or> \<not> isAnalyticsEnabled c then s else operation s)"

section \<open>Tracking service: event batching\<close>

record 'a event =
  table :: string
  data :: 'a

text \<open>
  A call of \<^verbatim>\<open>flushEvents\<close> that is suspended at the \<^verbatim>\<open>await\<close> of an insert: the
  events it took from the queue and the tables it has yet to look at.
\<close>

record 'a flush_call =
  call_no :: nat
  eventsToSend :: "'a event list"
  pending :: "string list"

text \<open>
  The module variables \<^verbatim>\<open>eventQueue\<close> and \<^verbatim>\<open>flushTimeout\<close>, the timeouts of the
  host that are set and have neither fired nor been cleared, the suspended calls of
  \<^verbatim>\<open>flushEvents\<close>, and two logs: the bulk inserts issued so far, each with the number
  of the call that issued it, and the lists of events that the calls took from the queue,
  in call order. Timer handles are positive integers in the host, hence truthy.
\<close>

record 'a batcher =
  eventQueue :: "'a event list"
  flushTimeout :: "nat option"
  timers :: "nat list"
  next_timer :: nat
  suspended :: "'a flush_call list"
  inserts :: "(nat \<times> string \<times> 'a list) list"
  flushed :: "'a event list list"

definition initial_batcher :: "'a batcher" where
  "initial_batcher = \<lparr>eventQueue = [], flushTimeout = None, timers = [], next_timer = 1,
     suspended = [], inserts = [], flushed = []\<rparr>"

definition FLUSH_INTERVAL :: int where
  "FLUSH_INTERVAL = 5000"

definition MAX_QUEUE_SIZE :: nat where
  "MAX_QUEUE_SIZE = 10"

text \<open>The three groups of \<^verbatim>\<open>flushEvents\<close>, in the order of the source.\<close>

definition group_tables :: "string list" where
  "group_tables = [''business_interactions'', ''visit_logs'', ''ai_search_logs'']"

text \<open>
  The operation of \<^verbatim>\<open>flushEvents\<close> from one group on: it issues the insert of the
  first group that is not empty and suspends there.
\<close>

fun issue_next :: "config \<Rightarrow> nat \<Rightarrow> 'a event list \<Rightarrow> string list \<Rightarrow> 'a batcher \<Rightarrow> 'a batcher" where
  "issue_next c k batch [] s = s"
| "issue_next c k batch (t # ts) s =
     (let rows = filter (\<lambda>e. table e = t) batch
      in if rows \<noteq> [] \<and> analyticsClient c \<noteq> None
         then s\<lparr>inserts := inserts s @ [(k, t, map data rows)],
                suspended := suspended s @ [\<lparr>call_no = k, eventsToSend = batch, pending = ts\<rparr>]\<rparr>
         else issue_next c k batch ts s)"

definition flushEvents :: "config \<Rightarrow> 'a batcher \<Rightarrow> 'a batcher" where
  "flushEvents c s =
     (if eventQueue s = [] \<or> \<not> isAnalyticsEnabled c then s
      else
        let eventsToSend = eventQueue s;
            s1 = s\<lparr>eventQueue := [], flushed := flushed s @ [eventsToSend]\<rparr>
        in safeAnalyticsOperation c
             (issue_next c (length (flushed s)) eventsToSend group_tables) s1)"

text \<open>
  \<^verbatim>\<open>scheduleFlush\<close> clears the timeout whose handle \<^verbatim>\<open>flushTimeout\<close> holds and sets a
  new one. The delay \<^verbatim>\<open>FLUSH_INTERVAL\<close> decides when a timeout fires; in the model a
  pending timeout can fire at any later step.
\<close>

definition clearTimeout :: "nat \<Rightarrow> 'a batcher \<Rightarrow> 'a batcher" where
  "clearTimeout h s = s\<lparr>timers := removeAll h (timers s)\<rparr>"

definition scheduleFlush :: "'a batcher \<Rightarrow> 'a batcher" where
  "scheduleFlush s =
     (let s1 = (case flushTimeout s of Some h \<Rightarrow> clearTimeout h s | None \<Rightarrow> s);
          h' = next_timer s1
      in s1\<lparr>flushTimeout := Some h', timers := timers s1 @ [h'], next_timer := Suc h'\<rparr>)"

definition queueEvent :: "config \<Rightarrow> string \<Rightarrow> 'a \<Rightarrow> 'a batcher \<Rightarrow> 'a batcher" where
  "queueEvent c tbl d s =
     (if \<not> isAnalyticsEnabled c then s
      else
        let s1 = s\<lparr>eventQueue := eventQueue s @ [\<lparr>table = tbl, data = d\<rparr>]\<rparr>
        in if length (eventQueue s1) \<ge> MAX_QUEUE_SIZE then flushEvents c s1
           else scheduleFlush s1)"

text \<open>A timeout of the host fires: it leaves the table of timeouts and runs its callback.\<close>

definition timer_fires :: "config \<Rightarrow> nat \<Rightarrow> 'a batcher \<Rightarrow> 'a batcher" where
  "timer_fires c h s =
     (if h \<in> set (timers s) then flushEvents c (s\<lparr>timers := removeAll h (timers s)\<rparr>) else s)"

text \<open>
  The insert that call \<open>k\<close> awaits settles. If it threw, \<^verbatim>\<open>safeAnalyticsOperation\<close>
  catches the error and the call ends; otherwise the call goes on with its next group.
\<close>

definition insert_settles :: "config \<Rightarrow> nat \<Rightarrow> bool \<Rightarrow> 'a batcher \<Rightarrow> 'a batcher" where
  "insert_settles c k threw s =
     (case find (\<lambda>f. call_no f = k) (suspended s) of
        None \<Rightarrow> s
      | Some f \<Rightarrow>
          let s1 = s\<lparr>suspended := filter (\<lambda>f. call_no f \<noteq> k) (suspended s)\<rparr>
          in if threw then s1 else issue_next c k (eventsToSend f) (pending f) s1)"

text \<open>
  What can happen to the batcher, one step at a time: a tracking function queues an
  event, a timeout fires, the page unloads (the \<^verbatim>\<open>beforeunload\<close> listener calls
  \<^verbatim>\<open>flushEvents\<close>), an awaited insert settles.
\<close>

datatype 'a occurrence =
  QueueEvent string 'a
  | TimerFires nat
  | BeforeUnload
  | InsertSettles nat bool

fun occur :: "config \<Rightarrow> 'a occurrence \<Rightarrow> 'a batcher \<Rightarrow> 'a batcher" where
  "occur c (QueueEvent tbl d) s = queueEvent c tbl d s"
| "occur c (TimerFires h) s = timer_fires c h s"
| "occur c BeforeUnload s = flushEvents c s"
| "occur c (InsertSettles k threw) s = insert_settles c k threw s"

definition run :: "config \<Rightarrow> 'a occurrence list \<Rightarrow> 'a batcher \<Rightarrow> 'a batcher" where
  "run c os s = fold (occur c) os s"


section \<open>Tracking service: live users\<close>

record live_user =
  device_id :: string
  user_name :: "string option"
  is_active :: bool
  last_ping :: string

text \<open>
  The module variables \<^verbatim>\<open>lastActivity\<close> and \<^verbatim>\<open>isTabActive\<close>, and the log of the
  upserts issued: table, row and conflict column.
\<close>

record presence =
  lastActivity :: int
  isTabActive :: bool
  upserts :: "(string \<times> live_user \<times> string) list"

definition PING_INTERVAL :: int where
  "PING_INTERVAL = 20000"

definition MIN_ACTIVITY_GAP :: int where
  "MIN_ACTIVITY_GAP = 10000"

text \<open>The listeners of the module; \<open>now\<close> is the reading of the clock in the listener.\<close>

definition on_activity :: "int \<Rightarrow> presence \<Rightarrow> presence" where
  "on_activity now s = s\<lparr>lastActivity := now\<rparr>"

definition on_visibilitychange :: "bool \<Rightarrow> int \<Rightarrow> presence \<Rightarrow> presence" where
  "on_visibilitychange hidden now s =
     (let s1 = s\<lparr>isTabActive := \<not> hidden\<rparr>
      in if isTabActive s1 then s1\<lparr>lastActivity := now\<rparr> else s1)"

text \<open>
  \<^verbatim>\<open>sendPing\<close>; \<open>now\<close> is the reading of the clock in the guard and \<open>stamp\<close> the
  time written into the row.
\<close>

definition sendPing :: "config \<Rightarrow> int \<Rightarrow> string \<Rightarrow> string \<Rightarrow> string option \<Rightarrow> presence \<Rightarrow> presence" where
  "sendPing c now stamp deviceId userName s =
     (if \<not> isTabActive s \<or> now - lastActivity s > MIN_ACTIVITY_GAP \<or> \<not> isAnalyticsEnabled c
      then s
      else safeAnalyticsOperation c
             (\<lambda>s. if analyticsClient c = None then s
                  else s\<lparr>upserts := upserts s @
                         [(''live_users'',
                           \<lparr>device_id = deviceId, user_name = userName, is_active = True,
                              last_ping = stamp\<rparr>,
                           ''device_id'')]\<rparr>) s)"

text \<open>
  What the listeners of the module are told about the page: a \<^verbatim>\<open>mousedown\<close>,
  \<^verbatim>\<open>keydown\<close>, \<^verbatim>\<open>scroll\<close> or \<^verbatim>\<open>touchstart\<close> event, or a
  \<^verbatim>\<open>visibilitychange\<close> event with the value of \<^verbatim>\<open>document.hidden\<close> at the event;
  each with the reading of the clock in its listener.
\<close>

datatype page_event = Interaction int | VisibilityChange bool int

fun handle_event :: "page_event \<Rightarrow> presence \<Rightarrow> presence" where
  "handle_event (Interaction now) s = on_activity now s"
| "handle_event (VisibilityChange hidden now) s = on_visibilitychange hidden now s"

text \<open>
  The state in which the module starts when it is loaded at time \<open>t0\<close>
  (\<^verbatim>\<open>let lastActivity = Date.now(); let isTabActive = true\<close>), and the state after the
  listeners have handled a sequence of events.
\<close>

definition presence_at_load :: "int \<Rightarrow> presence" where
  "presence_at_load t0 = \<lparr>lastActivity = t0, isTabActive = True, upserts = []\<rparr>"

definition after_events :: "int \<Rightarrow> page_event list \<Rightarrow> presence" where
  "after_events t0 evs = fold handle_event evs (presence_at_load t0)"

section \<open>Auxiliary notions\<close>

text \<open>No request to IndexedDB fails.\<close>

definition no_faults :: "env \<Rightarrow> bool" where
  "no_faults e = (\<forall>n. \<not> idb_fails e n)"

text \<open>The three collections of the local store hold the same in both states.\<close>

definition same_stores :: "world \<Rightarrow> world \<Rightarrow> bool" where
  "same_stores w w' =
     (businesses_store w' = businesses_store w \<and> categories_store w' = categories_store w \<and>
      metadata_store w' = metadata_store w)"

text \<open>
  A query has failed for \<^verbatim>\<open>getDataVersion\<close>: it threw, or it resolved with an error
  that the function throws. The error code \<^verbatim>\<open>PGRST116\<close> of the second query (no row
  selected) is the one that the function does not throw.
\<close>

definition count_query_failed :: "error + unit PostgrestResponse \<Rightarrow> bool" where
  "count_query_failed q =
     (case q of Inl thrown \<Rightarrow> True | Inr r \<Rightarrow> resp_error r \<noteq> None)"

definition updated_query_failed :: "error + UpdatedRow PostgrestResponse \<Rightarrow> bool" where
  "updated_query_failed q =
     (case q of
        Inl thrown \<Rightarrow> True
      | Inr r \<Rightarrow> (case resp_error r of Some err \<Rightarrow> code err \<noteq> ''PGRST116'' | None \<Rightarrow> False))"

text \<open>
  The facts of the page, read off the sequence of its events: whether the document is
  hidden, given whether it was hidden when the module was loaded; the time of the most
  recent user interaction, if there has been one; and the time of the most recent of: the
  load, a user interaction, the tab becoming visible.
\<close>

fun hidden_flag :: "page_event \<Rightarrow> bool option" where
  "hidden_flag (Interaction now) = None"
| "hidden_flag (VisibilityChange hidden now) = Some hidden"

fun interaction_time :: "page_event \<Rightarrow> int option" where
  "interaction_time (Interaction now) = Some now"
| "interaction_time (VisibilityChange hidden now) = None"

fun activity_time :: "page_event \<Rightarrow> int option" where
  "activity_time (Interaction now) = Some now"
| "activity_time (VisibilityChange hidden now) = (if hidden then None else Some now)"

definition document_hidden :: "bool \<Rightarrow> page_event list \<Rightarrow> bool" where
  "document_hidden hidden_at_load evs = last (hidden_at_load # List.map_filter hidden_flag evs)"

definition last_interaction :: "page_event list \<Rightarrow> int option" where
  "last_interaction evs =
     (case List.map_filter interaction_time evs of [] \<Rightarrow> None | t # ts \<Rightarrow> Some (last (t # ts)))"

definition last_activity :: "int \<Rightarrow> page_event list \<Rightarrow> int" where
  "last_activity t0 evs = last (t0 # List.map_filter activity_time evs)"


text \<open>Events are queued one after the other, with nothing else happening in between.\<close>

definition enqueue_all :: "config \<Rightarrow> 'a event list \<Rightarrow> 'a batcher \<Rightarrow> 'a batcher" where
  "enqueue_all c evs s = fold (\<lambda>ev. queueEvent c (table ev) (data ev)) evs s"

text \<open>No timeout is pending but, possibly, the one whose handle \<^verbatim>\<open>flushTimeout\<close> holds.\<close>

definition at_most_one_timer :: "'a batcher \<Rightarrow> bool" where
  "at_most_one_timer s =
     (timers s = [] \<or> (case flushTimeout s of Some h \<Rightarrow> timers s = [h] | None \<Rightarrow> False))"



section \<open>Sample values\<close>

text \<open>An environment in which no request to IndexedDB fails, and one in which every request fails.\<close>

definition env_ok :: env where
  "env_ok = \<lparr>date_now = (\<lambda>site n. 1700000000000 + int n), idb_fails = (\<lambda>n. False)\<rparr>"

definition env_down :: env where
  "env_down = \<lparr>date_now = (\<lambda>site n. 1700000000000 + int n), idb_fails = (\<lambda>n. True)\<rparr>"

text \<open>An environment in which the second request to IndexedDB fails, and no other.\<close>

definition env_flaky :: env where
  "env_flaky = \<lparr>date_now = (\<lambda>site n. 1700000000000 + int n), idb_fails = (\<lambda>n. n = 1)\<rparr>"

definition shop :: "string \<Rightarrow> Business" where
  "shop i = \<lparr>id_business = i, category = ''kirana'', shopName = ''Shop '' @ i,
     ownerName = ''Owner'', contactNumber = ''9800000000'', address = None,
     openingHours = None, services = Some [], homeDelivery = Some False,
     paymentOptions = None\<rparr>"

definition kirana :: Category where
  "kirana = \<lparr>id_category = ''kirana'', name_category = ''Kirana'', icon = ''fa-store''\<rparr>"

definition version_jan1 :: DataVersion where
  "version_jan1 = \<lparr>business_count = 12, last_updated = ''2024-01-01T00:00:00Z'', last_sync = 5\<rparr>"

definition version_jan2 :: DataVersion where
  "version_jan2 = \<lparr>business_count = 13, last_updated = ''2024-01-02T00:00:00Z'', last_sync = 7\<rparr>"

definition world_empty :: world where
  "world_empty = \<lparr>dbInstance = False, businesses_store = [], categories_store = [],
     metadata_store = [], clock_reads = (\<lambda>site. 0), idb_requests = 0, trace = []\<rparr>"

text \<open>A cache that holds one business, one category and the version of January 1.\<close>

definition world_cached :: world where
  "world_cached = \<lparr>dbInstance = False,
     businesses_store = [(''old'', Business.extend (shop ''old'') (CachedBusiness.fields 3))],
     categories_store = [(''kirana'', kirana)],
     metadata_store = [(''data_version'',
        \<lparr>key = ''data_version'', val = version_jan1, updated_at = 4\<rparr>)],
     clock_reads = (\<lambda>site. 0), idb_requests = 0, trace = []\<rparr>"

text \<open>Analytics configured, and not configured.\<close>

definition cfg_on :: config where
  "cfg_on = \<lparr>analyticsUrl = ''https://analytics.example'', analyticsAnonKey = ''anon''\<rparr>"

definition cfg_off :: config where
  "cfg_off = \<lparr>analyticsUrl = [], analyticsAnonKey = []\<rparr>"

definition visit :: "nat \<Rightarrow> nat event" where
  "visit n = \<lparr>table = ''visit_logs'', data = n\<rparr>"

definition nine_visits :: "nat event list" where
  "nine_visits = [visit 1, visit 2, visit 3, visit 4, visit 5, visit 6, visit 7, visit 8, visit 9]"




text \<open>
  A page on which the user interacts one second after the load, then hides the tab, and
  shows it again 100 seconds after the load.
\<close>

definition tab_shown_again :: "page_event list" where
  "tab_shown_again =
     [Interaction 1700000001000, VisibilityChange True 1700000002000,
      VisibilityChange False 1700000100000]"

section \<open>Properties of the cache service\<close>

subsection \<open>Object stores and the loops that fill them\<close>

lemma update_fresh: "k \<notin> fst ` set s \<Longrightarrow> AList.update k v s = s @ [(k, v)]"
  by (induction s) auto

lemma fold_store_put_fresh:
  "distinct (map k vs) \<Longrightarrow> k ` set vs \<inter> fst ` set s = {} \<Longrightarrow>
   fold (store_put k) vs s = s @ map (\<lambda>v. (k v, v)) vs"
proof (induction vs arbitrary: s)
  case Nil
  then show ?case by simp
next
  case (Cons v vs)
  have fresh: "k v \<notin> fst ` set s" using Cons.prems(2) by auto
  have step: "store_put k v s = s @ [(k v, v)]"
    by (simp add: store_put_def update_fresh [OF fresh])
  have "k ` set vs \<inter> fst ` set (s @ [(k v, v)]) = {}"
    using Cons.prems by auto
  with Cons.IH [of "s @ [(k v, v)]"] Cons.prems(1) step show ?case by simp
qed

lemma mset_store_getAll: "mset (store_getAll s) = mset (map snd s)"
  by (simp add: store_getAll_def)

lemma truncate_extend: "Business.truncate (Business.extend b (CachedBusiness.fields t)) = b"
  by (simp add: Business.defs CachedBusiness.defs)

lemma idb_request_ok:
  "no_faults e \<Longrightarrow> idb_request e eff w =
     (case eff (w\<lparr>idb_requests := Suc (idb_requests w)\<rparr>) of (x, w2) \<Rightarrow> (Inr x, w2))"
  by (simp add: idb_request_def no_faults_def)

lemma for_each_Inr_businesses:
  "for_each (\<lambda>b. idb_request e (\<lambda>w. ((), w\<lparr>businesses_store := g b (businesses_store w)\<rparr>))) bs w
       = (Inr u, w') \<Longrightarrow> businesses_store w' = fold g bs (businesses_store w)"
proof (induction bs arbitrary: w)
  case Nil
  then show ?case by (simp add: ret_def)
next
  case (Cons b bs)
  then show ?case
    by (auto simp: andThen_def idb_request_def Let_def split: if_splits prod.splits sum.splits)
qed

lemma getCachedBusinesses_Inr:
  "getCachedBusinesses e w = (Inr rs, w') \<Longrightarrow>
     rs = map Business.truncate (store_getAll (businesses_store w)) \<and>
     businesses_store w' = businesses_store w \<and> categories_store w' = categories_store w \<and>
     metadata_store w' = metadata_store w \<and> trace w' = trace w"
  by (auto simp: getCachedBusinesses_def andThen_def initDB_def idb_request_def Let_def ret_def
      split: if_splits prod.splits sum.splits)

lemma andThen_InrE:
  assumes "andThen m f w = (Inr y, w')"
  obtains x w1 where "m w = (Inr x, w1)" and "f x w1 = (Inr y, w')"
  using assms by (auto simp: andThen_def split: prod.splits sum.splits)

lemma transaction_Inr: "transaction undo m w = (Inr y, w') \<Longrightarrow> m w = (Inr y, w')"
  by (auto simp: transaction_def split: prod.splits sum.splits)

lemma idb_request_Inr:
  "idb_request e eff w = (Inr x, w') \<Longrightarrow> eff (w\<lparr>idb_requests := Suc (idb_requests w)\<rparr>) = (x, w')"
  by (auto simp: idb_request_def Let_def split: if_splits prod.splits)

lemma setCachedBusinesses_Inr:
  assumes "setCachedBusinesses e bs w = (Inr u, w')"
  shows "\<exists>now. businesses_store w' =
       fold (\<lambda>b. store_put id_business (Business.extend b (CachedBusiness.fields now))) bs []"
proof -
  from assms obtain w1 w2 where
    tx: "transaction (\<lambda>w w'. w'\<lparr>businesses_store := businesses_store w\<rparr>)
       (andThen (idb_request e (\<lambda>w. ((), w\<lparr>businesses_store := []\<rparr>))) (\<lambda>_.
        andThen (Date_now e Clock_setCachedBusinesses) (\<lambda>now.
        andThen (for_each (\<lambda>b. idb_request e (\<lambda>w. ((), w\<lparr>businesses_store :=
                   store_put id_business (Business.extend b (CachedBusiness.fields now))
                     (businesses_store w)\<rparr>))) bs) (\<lambda>_.
        idb_request e (\<lambda>w. ((), w)))))) w2 = (Inr u, w')"
    unfolding setCachedBusinesses_def by (elim andThen_InrE) auto
  from transaction_Inr [OF tx] obtain w3 w4 now w5 where
    clear: "idb_request e (\<lambda>w. ((), w\<lparr>businesses_store := []\<rparr>)) w2 = (Inr (), w3)" and
    loop: "for_each (\<lambda>b. idb_request e (\<lambda>w. ((), w\<lparr>businesses_store :=
                   store_put id_business (Business.extend b (CachedBusiness.fields now))
                     (businesses_store w)\<rparr>))) bs w4 = (Inr (), w5)" and
    clock: "Date_now e Clock_setCachedBusinesses w3 = (Inr now, w4)" and
    commit: "idb_request e (\<lambda>w. ((), w)) w5 = (Inr u, w')"
    by (elim andThen_InrE) auto
  have "businesses_store w3 = []" using idb_request_Inr [OF clear] by auto
  moreover have "businesses_store w4 = businesses_store w3"
    using clock by (auto simp: Date_now_def)
  moreover note for_each_Inr_businesses [OF loop]
  moreover have "businesses_store w' = businesses_store w5"
    using idb_request_Inr [OF commit] by auto
  ultimately show ?thesis by auto
qed

lemma put_businesses_ok:
  assumes "no_faults e"
  shows "for_each (\<lambda>b. idb_request e (\<lambda>w. ((), w\<lparr>businesses_store :=
            store_put id_business (Business.extend b (CachedBusiness.fields now))
              (businesses_store w)\<rparr>))) bs w
       = (Inr (), w\<lparr>idb_requests := idb_requests w + length bs,
                    businesses_store :=
                      fold (\<lambda>b. store_put id_business (Business.extend b (CachedBusiness.fields now)))
                        bs (businesses_store w)\<rparr>)"
  using assms
  by (induction bs arbitrary: w) (simp_all add: ret_def andThen_def idb_request_ok)

lemma put_categories_ok:
  assumes "no_faults e"
  shows "for_each (\<lambda>c. idb_request e (\<lambda>w. ((), w\<lparr>categories_store :=
            store_put id_category c (categories_store w)\<rparr>))) cs w
       = (Inr (), w\<lparr>idb_requests := idb_requests w + length cs,
                    categories_store := fold (store_put id_category) cs (categories_store w)\<rparr>)"
  using assms
  by (induction cs arbitrary: w) (simp_all add: ret_def andThen_def idb_request_ok)

lemma setCachedBusinesses_ok:
  assumes "no_faults e"
  shows "\<exists>w'. setCachedBusinesses e bs w = (Inr (), w')"
  using assms
  by (simp add: setCachedBusinesses_def andThen_def initDB_def idb_request_ok put_businesses_ok
        log_call_def transaction_def Date_now_def)

lemma getCachedBusinesses_ok:
  assumes "no_faults e"
  shows "\<exists>rs w'. getCachedBusinesses e w = (Inr rs, w')"
  using assms
  by (simp add: getCachedBusinesses_def andThen_def initDB_def idb_request_ok ret_def)

lemma round_trip_records:
  assumes "distinct (map id_business bs)"
  shows "mset (map Business.truncate (store_getAll
           (fold (\<lambda>b. store_put id_business (Business.extend b (CachedBusiness.fields now))) bs [])))
         = mset bs"
proof -
  let ?ext = "\<lambda>b. Business.extend b (CachedBusiness.fields now)"
  have key: "id_business (?ext b) = id_business b" for b
    by (simp add: Business.defs CachedBusiness.defs)
  have "fold (\<lambda>b. store_put id_business (?ext b)) bs [] = fold (store_put id_business) (map ?ext bs) []"
    by (simp add: fold_map comp_def)
  also have "\<dots> = map (\<lambda>v. (id_business v, v)) (map ?ext bs)"
    using assms fold_store_put_fresh [of id_business "map ?ext bs" "[]"]
    by (simp add: comp_def key)
  finally have "store_getAll (fold (\<lambda>b. store_put id_business (?ext b)) bs [])
      = store_getAll (map (\<lambda>v. (id_business v, v)) (map ?ext bs))" by simp
  then have "mset (map Business.truncate (store_getAll (fold (\<lambda>b. store_put id_business (?ext b)) bs [])))
      = image_mset Business.truncate (mset (map snd (map (\<lambda>v. (id_business v, v)) (map ?ext bs))))"
    by (simp add: mset_store_getAll)
  also have "\<dots> = mset (map (\<lambda>b. Business.truncate (?ext b)) bs)"
    by (simp add: comp_def multiset.map_comp)
  also have "\<dots> = mset bs" by (simp add: truncate_extend)
  finally show ?thesis .
qed

text \<open>
  Claim C5. For every list of business records with pairwise distinct identifiers and any
  prior contents of the businesses collection: when no request to IndexedDB fails,
  \<^verbatim>\<open>setCachedBusinesses\<close> and a \<^verbatim>\<open>getCachedBusinesses\<close> right after it both return;
  and whenever both return, the records read are exactly the records passed in (as a
  multiset: order apart, the local \<^verbatim>\<open>_synced_at\<close> stripped), so that no record that was
  in the collection before and is not among those passed in is read back.
\<close>

theorem replace_all_round_trip:
  assumes "distinct (map id_business bs)"
  shows "(no_faults e \<longrightarrow>
            (\<exists>w1 rs w2. setCachedBusinesses e bs w = (Inr (), w1) \<and>
                        getCachedBusinesses e w1 = (Inr rs, w2))) \<and>
         (\<forall>w1 rs w2. setCachedBusinesses e bs w = (Inr (), w1) \<longrightarrow>
                     getCachedBusinesses e w1 = (Inr rs, w2) \<longrightarrow>
                     mset rs = mset bs \<and>
                     (\<forall>old \<in> snd ` set (businesses_store w).
                        Business.truncate old \<notin> set bs \<longrightarrow> Business.truncate old \<notin> set rs))"
proof -
  have returns: "\<exists>w1 rs w2. setCachedBusinesses e bs w = (Inr (), w1) \<and>
                        getCachedBusinesses e w1 = (Inr rs, w2)" if nf: "no_faults e"
  proof -
    from setCachedBusinesses_ok [OF nf] obtain w1 where
      s: "setCachedBusinesses e bs w = (Inr (), w1)" by blast
    from getCachedBusinesses_ok [OF nf] obtain rs w2 where
      "getCachedBusinesses e w1 = (Inr rs, w2)" by blast
    with s show ?thesis by blast
  qed
  have exact: "mset rs = mset bs \<and>
                     (\<forall>old \<in> snd ` set (businesses_store w).
                        Business.truncate old \<notin> set bs \<longrightarrow> Business.truncate old \<notin> set rs)"
    if s: "setCachedBusinesses e bs w = (Inr (), w1)"
      and g: "getCachedBusinesses e w1 = (Inr rs, w2)" for w1 rs w2
  proof -
    from setCachedBusinesses_Inr [OF s] obtain now where
      st: "businesses_store w1 =
         fold (\<lambda>b. store_put id_business (Business.extend b (CachedBusiness.fields now))) bs []"
      by blast
    from getCachedBusinesses_Inr [OF g] have
      "rs = map Business.truncate (store_getAll (businesses_store w1))" by simp
    with st round_trip_records [OF assms, of now] have m: "mset rs = mset bs" by simp
    then have "set rs = set bs" by (metis set_mset_mset)
    with m show ?thesis by simp
  qed
  from returns exact show ?thesis by blast
qed


theorem replace_all_round_trip_witness:
  "distinct (map id_business [shop ''b1'', shop ''b2'']) \<and> no_faults env_ok \<and>
   Business.extend (shop ''old'') (CachedBusiness.fields 3) \<in> snd ` set (businesses_store world_cached) \<and>
   (\<exists>w1 rs w2. setCachedBusinesses env_ok [shop ''b1'', shop ''b2''] world_cached = (Inr (), w1) \<and>
      getCachedBusinesses env_ok w1 = (Inr rs, w2) \<and>
      mset rs = mset [shop ''b1'', shop ''b2''] \<and> shop ''old'' \<notin> set rs)"
proof -
  have d: "distinct (map id_business [shop ''b1'', shop ''b2''])"
    by (simp add: shop_def)
  have nf: "no_faults env_ok"
    by (simp add: no_faults_def env_ok_def)
  have old: "Business.extend (shop ''old'') (CachedBusiness.fields 3)
      \<in> snd ` set (businesses_store world_cached)"
    by (simp add: world_cached_def)
  have gone: "Business.truncate (Business.extend (shop ''old'') (CachedBusiness.fields 3))
      \<notin> set [shop ''b1'', shop ''b2'']"
    by (simp add: shop_def Business.defs CachedBusiness.defs)
  have tr: "Business.truncate (Business.extend (shop ''old'') (CachedBusiness.fields 3)) = shop ''old''"
    by (simp add: Business.defs CachedBusiness.defs)
  from replace_all_round_trip [OF d, of env_ok world_cached] nf old gone tr
  show ?thesis using d by metis
qed

subsection \<open>The actions of a result\<close>

lemma try_catch_InrE:
  assumes "try_catch m h w = (Inr y, w')"
  obtains "m w = (Inr y, w')" | err w1 where "m w = (Inl err, w1)" and "h err w1 = (Inr y, w')"
  using assms by (auto simp: try_catch_def split: prod.splits sum.splits)

lemma checkSyncNeeded_Inr:
  "checkSyncNeeded e rv w = (Inr a, w') \<Longrightarrow> a = no_change \<or> a = full_sync"
  unfolding checkSyncNeeded_def
  by (erule andThen_InrE) (auto simp: ret_def split: option.splits if_splits)

lemma smartSync_try_Inr:
  assumes "smartSync_try e frv fad w = (Inr r, w')"
  shows "action r = no_change \<or> action r = full_sync"
  using assms unfolding smartSync_try_def
  apply (elim andThen_InrE)
  apply (auto split: if_splits prod.splits elim!: andThen_InrE simp: ret_def)
  done

lemma smartSync_catch_Inr:
  assumes "smartSync_catch e err w = (Inr r, w')"
  shows "action r = no_change \<and> fromCache r"
  using assms unfolding smartSync_catch_def
  by (elim andThen_InrE) (auto split: prod.splits simp: ret_def)

text \<open>
  Claim C10. Whatever the environment, the accessors' outcomes and the state:
  \<^verbatim>\<open>checkSyncNeeded\<close> returns \<^verbatim>\<open>no_change\<close> or \<^verbatim>\<open>full_sync\<close>, and the action of a
  result of \<^verbatim>\<open>smartSync\<close> is one of these two; \<^verbatim>\<open>incremental_sync\<close> is never
  returned.
\<close>

theorem action_never_incremental:
  "(\<forall>a w'. checkSyncNeeded e rv w = (Inr a, w') \<longrightarrow> a = no_change \<or> a = full_sync) \<and>
   (\<forall>r w'. smartSync e frv fad w = (Inr r, w') \<longrightarrow> action r = no_change \<or> action r = full_sync)"
proof (intro conjI allI impI)
  fix a w' assume "checkSyncNeeded e rv w = (Inr a, w')"
  then show "a = no_change \<or> a = full_sync" by (rule checkSyncNeeded_Inr)
next
  fix r w' assume "smartSync e frv fad w = (Inr r, w')"
  then show "action r = no_change \<or> action r = full_sync"
    unfolding smartSync_def
  proof (cases rule: try_catch_InrE)
    case 1
    then show ?thesis by (rule smartSync_try_Inr)
  next
    case (2 err w1)
    then show ?thesis using smartSync_catch_Inr by blast
  qed
qed

subsection \<open>Reads leave the local store as it is\<close>

lemma same_stores_refl [simp]: "same_stores w w"
  by (simp add: same_stores_def)

lemma same_stores_trans: "same_stores w w1 \<Longrightarrow> same_stores w1 w2 \<Longrightarrow> same_stores w w2"
  by (simp add: same_stores_def)

lemma getCachedBusinesses_any:
  "getCachedBusinesses e w = (r, w') \<Longrightarrow> same_stores w w' \<and> trace w' = trace w"
  by (auto simp: getCachedBusinesses_def andThen_def initDB_def idb_request_def Let_def ret_def
      same_stores_def split: if_splits prod.splits sum.splits)

lemma getCachedCategories_any:
  "getCachedCategories e w = (r, w') \<Longrightarrow> same_stores w w' \<and> trace w' = trace w"
  by (auto simp: getCachedCategories_def andThen_def initDB_def idb_request_def Let_def ret_def
      same_stores_def split: if_splits prod.splits sum.splits)

lemma getCachedCategories_Inr:
  "getCachedCategories e w = (Inr cs, w') \<Longrightarrow> cs = store_getAll (categories_store w)"
  by (auto simp: getCachedCategories_def andThen_def initDB_def idb_request_def Let_def ret_def
      split: if_splits prod.splits sum.splits)

lemma getLocalVersion_any:
  "getLocalVersion e w = (r, w') \<Longrightarrow> same_stores w w' \<and> trace w' = trace w \<and>
     (\<forall>v. r = Inr v \<longrightarrow> v = map_option val (store_get ''data_version'' (metadata_store w)))"
  by (auto simp: getLocalVersion_def getMetadata_def andThen_def initDB_def idb_request_def Let_def
      ret_def same_stores_def split: if_splits prod.splits sum.splits option.splits)

lemma read_cache_any:
  assumes "promise_all2 (getCachedBusinesses e) (getCachedCategories e) w = (r, w')"
  shows "same_stores w w' \<and> trace w' = trace w"
proof -
  obtain r1 w1 where b: "getCachedBusinesses e w = (r1, w1)" by force
  obtain r2 w2 where c: "getCachedCategories e w1 = (r2, w2)" by force
  from assms b c have "w' = w2" by (simp add: promise_all2_def)
  with getCachedBusinesses_any [OF b] getCachedCategories_any [OF c] show ?thesis
    by (auto intro: same_stores_trans)
qed

lemma serve_cache_any:
  assumes "andThen (promise_all2 (getCachedBusinesses e) (getCachedCategories e)) k w = (r, w')"
    and "\<And>x w. k x w = (Inr (g x), w)"
  shows "same_stores w w' \<and> trace w' = trace w"
proof -
  obtain r1 w1 where p: "promise_all2 (getCachedBusinesses e) (getCachedCategories e) w = (r1, w1)"
    by force
  with assms have "w' = w1" by (cases r1) (auto simp: andThen_def)
  with read_cache_any [OF p] show ?thesis by simp
qed

lemma smartSync_catch_any:
  "smartSync_catch e err w = (r, w') \<Longrightarrow> same_stores w w' \<and> trace w' = trace w"
  unfolding smartSync_catch_def
  by (erule serve_cache_any [where g = "\<lambda>(bs, cs).
        \<lparr>action = no_change, businesses = bs, categories = cs, fromCache = True\<rparr>"])
     (auto simp: ret_def)

lemma checkSyncNeeded_any:
  assumes "checkSyncNeeded e rv w = (r, w')"
  shows "same_stores w w' \<and> trace w' = trace w \<and>
     (\<forall>a. r = Inr a \<longrightarrow> a =
        (case store_get ''data_version'' (metadata_store w) of
           None \<Rightarrow> full_sync
         | Some m \<Rightarrow> if business_count (val m) \<noteq> business_count rv
                        \<or> last_updated (val m) \<noteq> last_updated rv then full_sync else no_change))"
proof -
  obtain r1 w1 where l: "getLocalVersion e w = (r1, w1)" by force
  show ?thesis
  proof (cases r1)
    case (Inl x)
    with l assms getLocalVersion_any [OF l] show ?thesis
      by (auto simp: checkSyncNeeded_def andThen_def)
  next
    case (Inr v)
    with l assms getLocalVersion_any [OF l] show ?thesis
      by (auto simp: checkSyncNeeded_def andThen_def ret_def split: option.splits if_splits)
  qed
qed

lemma smartSync_try_unchanged:
  assumes m: "store_get ''data_version'' (metadata_store w) = Some m"
    and c: "business_count (val m) = business_count rv"
    and u: "last_updated (val m) = last_updated rv"
    and run: "smartSync_try e (Inr rv) fad w = (r, w')"
  shows "same_stores w w' \<and> trace w' = trace w @ [Call_fetchRemoteVersion]"
proof -
  let ?w0 = "w\<lparr>trace := trace w @ [Call_fetchRemoteVersion]\<rparr>"
  obtain r1 w1 where chk: "checkSyncNeeded e rv ?w0 = (r1, w1)" by force
  note k = checkSyncNeeded_any [OF chk]
  have s01: "same_stores w w1" and t01: "trace w1 = trace w @ [Call_fetchRemoteVersion]"
    using k by (simp_all add: same_stores_def)
  show ?thesis
  proof (cases r1)
    case (Inl x)
    with run chk have "w' = w1"
      by (simp add: smartSync_try_def andThen_def call_accessor_def)
    with s01 t01 show ?thesis by simp
  next
    case (Inr a)
    with k m c u have a: "a = no_change" by simp
    from run chk Inr a have
      "andThen (promise_all2 (getCachedBusinesses e) (getCachedCategories e)) (\<lambda>(bs, cs).
         ret \<lparr>action = no_change, businesses = bs, categories = cs, fromCache = True\<rparr>) w1 = (r, w')"
      by (simp add: smartSync_try_def andThen_def call_accessor_def)
    then have "same_stores w1 w' \<and> trace w' = trace w1"
      by (rule serve_cache_any [where g = "\<lambda>(bs, cs).
        \<lparr>action = no_change, businesses = bs, categories = cs, fromCache = True\<rparr>"])
         (auto simp: ret_def)
    with s01 t01 show ?thesis by (auto intro: same_stores_trans)
  qed
qed

lemma smartSync_unchanged_ok:
  assumes m: "store_get ''data_version'' (metadata_store w) = Some m"
    and c: "business_count (val m) = business_count rv"
    and u: "last_updated (val m) = last_updated rv"
    and nf: "no_faults e"
  shows "fst (smartSync e (Inr rv) fad w) =
     Inr \<lparr>action = no_change,
          businesses = map Business.truncate (store_getAll (businesses_store w)),
          categories = store_getAll (categories_store w), fromCache = True\<rparr>"
  using m c u
  by (cases "dbInstance w")
     (simp_all add: smartSync_def try_catch_def smartSync_try_def andThen_def call_accessor_def
       checkSyncNeeded_def getLocalVersion_def getMetadata_def initDB_def idb_request_ok [OF nf]
       ret_def promise_all2_def getCachedBusinesses_def getCachedCategories_def)

text \<open>
  Claim C2. The stored local descriptor equals the remote one in record count and in
  \<^verbatim>\<open>last_updated\<close> (nothing is asked of \<^verbatim>\<open>last_sync\<close>). Then \<^verbatim>\<open>smartSync\<close> calls
  the version accessor and nothing else that the trace records: no full-data fetch and
  no writer of the local store, whose three collections are left as they were; this holds
  whichever requests to IndexedDB fail. When none fails, the result is the cached
  businesses and categories with action \<^verbatim>\<open>no_change\<close> and \<^verbatim>\<open>fromCache = true\<close>.
\<close>

theorem unchanged_version_uses_cache:
  assumes m: "store_get ''data_version'' (metadata_store w) = Some m"
    and c: "business_count (val m) = business_count rv"
    and u: "last_updated (val m) = last_updated rv"
  shows "case smartSync e (Inr rv) fad w of (res, w') \<Rightarrow>
           trace w' = trace w @ [Call_fetchRemoteVersion] \<and> same_stores w w' \<and>
           (no_faults e \<longrightarrow> res =
              Inr \<lparr>action = no_change,
                   businesses = map Business.truncate (store_getAll (businesses_store w)),
                   categories = store_getAll (categories_store w), fromCache = True\<rparr>)"
proof -
  obtain res w' where s: "smartSync e (Inr rv) fad w = (res, w')" by force
  obtain r1 w1 where t: "smartSync_try e (Inr rv) fad w = (r1, w1)" by force
  note t1 = smartSync_try_unchanged [OF m c u t]
  have "same_stores w w' \<and> trace w' = trace w @ [Call_fetchRemoteVersion]"
  proof (cases r1)
    case (Inl err)
    with s t have "smartSync_catch e err w1 = (res, w')"
      by (simp add: smartSync_def try_catch_def)
    from smartSync_catch_any [OF this] t1 show ?thesis
      by (auto intro: same_stores_trans)
  next
    case (Inr x)
    with s t have "w' = w1" by (simp add: smartSync_def try_catch_def)
    with t1 show ?thesis by simp
  qed
  moreover have "res = Inr \<lparr>action = no_change,
                   businesses = map Business.truncate (store_getAll (businesses_store w)),
                   categories = store_getAll (categories_store w), fromCache = True\<rparr>"
    if "no_faults e"
    using smartSync_unchanged_ok [OF m c u that, of fad] s by simp
  ultimately show ?thesis using s by simp
qed

subsection \<open>Runs in which no request fails\<close>

lemma setCachedBusinesses_run:
  assumes nf: "no_faults e"
  shows "setCachedBusinesses e bs w =
    (Inr (), w\<lparr>trace := trace w @ [Call_setCachedBusinesses], dbInstance := True,
               idb_requests := idb_requests w + (if dbInstance w then 0 else 1) + length bs + 2,
               clock_reads := (clock_reads w)(Clock_setCachedBusinesses :=
                 Suc (clock_reads w Clock_setCachedBusinesses)),
               businesses_store :=
                 fold (\<lambda>b. store_put id_business
                        (Business.extend b (CachedBusiness.fields
                          (date_now e Clock_setCachedBusinesses
                             (clock_reads w Clock_setCachedBusinesses)))))
                   bs []\<rparr>)"
  by (cases "dbInstance w")
     (simp_all add: setCachedBusinesses_def andThen_def initDB_def idb_request_ok [OF nf]
        put_businesses_ok [OF nf] log_call_def transaction_def Date_now_def)

lemma setCachedCategories_run:
  assumes nf: "no_faults e"
  shows "setCachedCategories e cs w =
    (Inr (), w\<lparr>trace := trace w @ [Call_setCachedCategories], dbInstance := True,
               idb_requests := idb_requests w + (if dbInstance w then 0 else 1) + length cs + 2,
               categories_store := fold (store_put id_category) cs []\<rparr>)"
  by (cases "dbInstance w")
     (simp_all add: setCachedCategories_def andThen_def initDB_def idb_request_ok [OF nf]
        put_categories_ok [OF nf] log_call_def transaction_def)

lemma setLocalVersion_run:
  assumes nf: "no_faults e"
  shows "setLocalVersion e v w =
    (Inr (), w\<lparr>trace := trace w @ [Call_setMetadata ''data_version''], dbInstance := True,
               idb_requests := idb_requests w + (if dbInstance w then 0 else 1) + 1,
               clock_reads := (clock_reads w)(Clock_setMetadata :=
                 Suc (clock_reads w Clock_setMetadata)),
               metadata_store := store_put key
                 \<lparr>key = ''data_version'', val = v,
                    updated_at = date_now e Clock_setMetadata (clock_reads w Clock_setMetadata)\<rparr>
                 (metadata_store w)\<rparr>)"
  by (cases "dbInstance w")
     (simp_all add: setLocalVersion_def setMetadata_def andThen_def initDB_def
        idb_request_ok [OF nf] log_call_def Date_now_def)

lemma getLocalVersion_run:
  assumes nf: "no_faults e"
  shows "getLocalVersion e w =
    (Inr (map_option val (store_get ''data_version'' (metadata_store w))),
     w\<lparr>dbInstance := True, idb_requests := idb_requests w + (if dbInstance w then 0 else 1) + 1\<rparr>)"
  by (cases "dbInstance w")
     (simp_all add: getLocalVersion_def getMetadata_def andThen_def initDB_def
        idb_request_ok [OF nf] ret_def split: option.splits)

lemma store_get_put: "store_get (k v) (store_put k v s) = Some v"
  by (simp add: store_get_def store_put_def update_conv')

text \<open>
  Claim C1. The stored local descriptor differs from the remote one in record count or in
  \<^verbatim>\<open>last_updated\<close>, both accessors return and no request to IndexedDB fails. Then
  \<^verbatim>\<open>smartSync\<close> returns the fetched data with action \<^verbatim>\<open>full_sync\<close> and
  \<^verbatim>\<open>fromCache = false\<close>; after the call of the version accessor the trace shows
  exactly one full-data fetch, one replacement of the businesses collection, one of the
  categories collection and one write of the version; each collection holds what a cleared
  store holds after the fetched records have been put into it (the businesses with the
  timestamp that \<^verbatim>\<open>setCachedBusinesses\<close> reads from the clock); and the version stored
  is the remote descriptor with \<^verbatim>\<open>last_sync\<close> set to the reading of the clock that
  \<^verbatim>\<open>smartSync\<close> takes.
\<close>

theorem changed_version_full_sync:
  assumes nf: "no_faults e"
    and m: "store_get ''data_version'' (metadata_store w) = Some m"
    and d: "business_count (val m) \<noteq> business_count rv \<or> last_updated (val m) \<noteq> last_updated rv"
  shows "case smartSync e (Inr rv) (Inr (bs, cs)) w of (res, w') \<Rightarrow>
      res = Inr \<lparr>action = full_sync, businesses = bs, categories = cs, fromCache = False\<rparr> \<and>
      trace w' = trace w @ [Call_fetchRemoteVersion, Call_fetchAllData, Call_setCachedBusinesses,
                            Call_setCachedCategories, Call_setMetadata ''data_version''] \<and>
      businesses_store w' =
        fold (\<lambda>b. store_put id_business
               (Business.extend b (CachedBusiness.fields
                  (date_now e Clock_setCachedBusinesses
                     (clock_reads w Clock_setCachedBusinesses))))) bs [] \<and>
      categories_store w' = fold (store_put id_category) cs [] \<and>
      map_option val (store_get ''data_version'' (metadata_store w')) =
        Some (rv\<lparr>last_sync := date_now e Clock_smartSync (clock_reads w Clock_smartSync)\<rparr>)"
proof -
  have k: "key \<lparr>key = ''data_version'', val = v, updated_at = t\<rparr> = ''data_version''" for v t
    by simp
  show ?thesis
    using m d store_get_put [of key "\<lparr>key = ''data_version'', val = v, updated_at = t\<rparr>" for v t]
    by (auto simp add: smartSync_def try_catch_def smartSync_try_def andThen_def call_accessor_def
       checkSyncNeeded_def getLocalVersion_run [OF nf] setCachedBusinesses_run [OF nf]
       setCachedCategories_run [OF nf] setLocalVersion_run [OF nf]
       ret_def promise_all2_def promise_all3_def Date_now_def)
qed

text \<open>
  The fallback, as far as the \<^verbatim>\<open>catch\<close> block provides it. When the \<^verbatim>\<open>try\<close> block
  of \<^verbatim>\<open>smartSync\<close> throws (the version fetch, the full-data fetch or an operation of
  the local store has failed) and the two reads of the \<^verbatim>\<open>catch\<close> block return,
  \<^verbatim>\<open>smartSync\<close> returns what the local store holds at that moment, with action
  \<^verbatim>\<open>no_change\<close> and \<^verbatim>\<open>fromCache = true\<close>.
\<close>

lemma fallback_when_reads_return:
  assumes t: "smartSync_try e frv fad w = (Inl err, w1)"
    and b: "getCachedBusinesses e w1 = (Inr bs, w2)"
    and c: "getCachedCategories e w2 = (Inr cs, w3)"
  shows "smartSync e frv fad w =
     (Inr \<lparr>action = no_change,
           businesses = map Business.truncate (store_getAll (businesses_store w1)),
           categories = store_getAll (categories_store w1), fromCache = True\<rparr>, w3)"
proof -
  from getCachedBusinesses_Inr [OF b] have bs: "bs = map Business.truncate (store_getAll (businesses_store w1))"
    and same: "categories_store w2 = categories_store w1" by simp_all
  from getCachedCategories_Inr [OF c] same have cs: "cs = store_getAll (categories_store w1)" by simp
  show ?thesis
    using t b c bs cs
    by (simp add: smartSync_def try_catch_def smartSync_catch_def promise_all2_def andThen_def ret_def)
qed

lemma version_fetch_throws:
  "smartSync_try e (Inl x) fad w = (Inl x, w\<lparr>trace := trace w @ [Call_fetchRemoteVersion]\<rparr>)"
  by (simp add: smartSync_try_def andThen_def call_accessor_def)

subsection \<open>The claims at the sample cache\<close>

lemma no_faults_env_ok: "no_faults env_ok"
  by (simp add: no_faults_def env_ok_def)

lemma world_cached_version:
  "store_get ''data_version'' (metadata_store world_cached) =
     Some \<lparr>key = ''data_version'', val = version_jan1, updated_at = 4\<rparr>"
  by (simp add: store_get_def world_cached_def)

lemma world_cached_businesses:
  "map Business.truncate (store_getAll (businesses_store world_cached)) = [shop ''old'']"
  by (simp add: world_cached_def store_getAll_def Business.defs CachedBusiness.defs)

lemma world_cached_categories:
  "store_getAll (categories_store world_cached) = [kirana]"
  by (simp add: world_cached_def store_getAll_def)

theorem changed_version_full_sync_witness:
  "no_faults env_ok \<and>
   store_get ''data_version'' (metadata_store world_cached) =
     Some \<lparr>key = ''data_version'', val = version_jan1, updated_at = 4\<rparr> \<and>
   business_count version_jan1 \<noteq> business_count version_jan2 \<and>
   (case smartSync env_ok (Inr version_jan2) (Inr ([shop ''b1'', shop ''b2''], [kirana])) world_cached
    of (res, w') \<Rightarrow>
      res = Inr \<lparr>action = full_sync, businesses = [shop ''b1'', shop ''b2''],
                 categories = [kirana], fromCache = False\<rparr> \<and>
      trace w' = [Call_fetchRemoteVersion, Call_fetchAllData, Call_setCachedBusinesses,
                  Call_setCachedCategories, Call_setMetadata ''data_version''] \<and>
      map_option val (store_get ''data_version'' (metadata_store w')) =
        Some \<lparr>business_count = 13, last_updated = ''2024-01-02T00:00:00Z'',
               last_sync = 1700000000000\<rparr>)"
proof -
  have d: "business_count (val \<lparr>key = ''data_version'', val = version_jan1, updated_at = 4\<rparr>)
             \<noteq> business_count version_jan2
           \<or> last_updated (val \<lparr>key = ''data_version'', val = version_jan1, updated_at = 4\<rparr>)
             \<noteq> last_updated version_jan2"
    by (simp add: version_jan1_def version_jan2_def)
  have t: "trace world_cached = []" and c: "clock_reads world_cached = (\<lambda>site. 0)"
    by (simp_all add: world_cached_def)
  from changed_version_full_sync [OF no_faults_env_ok world_cached_version d,
      of "[shop ''b1'', shop ''b2'']" "[kirana]"]
  show ?thesis
    using no_faults_env_ok world_cached_version
    by (auto simp: t c version_jan1_def version_jan2_def env_ok_def)
qed

theorem unchanged_version_uses_cache_witness:
  "store_get ''data_version'' (metadata_store world_cached) =
     Some \<lparr>key = ''data_version'', val = version_jan1, updated_at = 4\<rparr> \<and>
   business_count version_jan1 = business_count (version_jan1\<lparr>last_sync := 99\<rparr>) \<and>
   last_updated version_jan1 = last_updated (version_jan1\<lparr>last_sync := 99\<rparr>) \<and>
   no_faults env_ok \<and>
   (case smartSync env_ok (Inr (version_jan1\<lparr>last_sync := 99\<rparr>)) (Inl RemoteFailure) world_cached
    of (res, w') \<Rightarrow>
      trace w' = [Call_fetchRemoteVersion] \<and> same_stores world_cached w' \<and>
      res = Inr \<lparr>action = no_change, businesses = [shop ''old''], categories = [kirana],
                 fromCache = True\<rparr>)"
proof -
  have c: "business_count (val \<lparr>key = ''data_version'', val = version_jan1, updated_at = 4\<rparr>)
             = business_count (version_jan1\<lparr>last_sync := 99\<rparr>)"
    and u: "last_updated (val \<lparr>key = ''data_version'', val = version_jan1, updated_at = 4\<rparr>)
             = last_updated (version_jan1\<lparr>last_sync := 99\<rparr>)"
    by simp_all
  have t: "trace world_cached = []"
    by (simp add: world_cached_def)
  from unchanged_version_uses_cache [OF world_cached_version c u, of env_ok "Inl RemoteFailure"]
  show ?thesis
    using no_faults_env_ok world_cached_version
    by (auto simp: t world_cached_businesses world_cached_categories)
qed

text \<open>
  Three runs in which the fallback works: the version fetch throws; the full-data fetch
  throws; one request to IndexedDB fails in the \<^verbatim>\<open>try\<close> block and none after it.
\<close>

lemma fallback_when_reads_return_examples:
  "(\<exists>w1 w2 w3.
     smartSync_try env_ok (Inl RemoteFailure) (Inl RemoteFailure) world_cached = (Inl RemoteFailure, w1) \<and>
     getCachedBusinesses env_ok w1 = (Inr [shop ''old''], w2) \<and>
     getCachedCategories env_ok w2 = (Inr [kirana], w3) \<and>
     smartSync env_ok (Inl RemoteFailure) (Inl RemoteFailure) world_cached =
       (Inr \<lparr>action = no_change, businesses = [shop ''old''], categories = [kirana],
             fromCache = True\<rparr>, w3)) \<and>
   (\<exists>w1 w2 w3.
     smartSync_try env_ok (Inr version_jan2) (Inl RemoteFailure) world_cached = (Inl RemoteFailure, w1) \<and>
     getCachedBusinesses env_ok w1 = (Inr [shop ''old''], w2) \<and>
     getCachedCategories env_ok w2 = (Inr [kirana], w3) \<and>
     smartSync env_ok (Inr version_jan2) (Inl RemoteFailure) world_cached =
       (Inr \<lparr>action = no_change, businesses = [shop ''old''], categories = [kirana],
             fromCache = True\<rparr>, w3)) \<and>
   (\<exists>w1 w2 w3.
     smartSync_try env_flaky (Inr version_jan2) (Inr ([shop ''b1''], [kirana])) world_cached
       = (Inl StoreFailure, w1) \<and>
     getCachedBusinesses env_flaky w1 = (Inr [shop ''old''], w2) \<and>
     getCachedCategories env_flaky w2 = (Inr [kirana], w3) \<and>
     smartSync env_flaky (Inr version_jan2) (Inr ([shop ''b1''], [kirana])) world_cached =
       (Inr \<lparr>action = no_change, businesses = [shop ''old''], categories = [kirana],
             fromCache = True\<rparr>, w3))"
proof -
  have db: "\<not> dbInstance world_cached" and tr: "trace world_cached = []"
    and rq: "idb_requests world_cached = 0"
    by (simp_all add: world_cached_def)
  have reads: "\<exists>w2 w3. getCachedBusinesses env_ok w1 = (Inr [shop ''old''], w2) \<and>
      getCachedCategories env_ok w2 = (Inr [kirana], w3)"
    if "businesses_store w1 = businesses_store world_cached"
      and "categories_store w1 = categories_store world_cached" for w1
    using that world_cached_businesses world_cached_categories
    by (cases "dbInstance w1")
       (simp_all add: getCachedBusinesses_def getCachedCategories_def andThen_def initDB_def
          idb_request_ok [OF no_faults_env_ok] ret_def)
  have one: "\<exists>w1 w2 w3.
     smartSync_try env_ok (Inl RemoteFailure) (Inl RemoteFailure) world_cached = (Inl RemoteFailure, w1) \<and>
     getCachedBusinesses env_ok w1 = (Inr [shop ''old''], w2) \<and>
     getCachedCategories env_ok w2 = (Inr [kirana], w3) \<and>
     smartSync env_ok (Inl RemoteFailure) (Inl RemoteFailure) world_cached =
       (Inr \<lparr>action = no_change, businesses = [shop ''old''], categories = [kirana],
             fromCache = True\<rparr>, w3)"
  proof -
    let ?w1 = "world_cached\<lparr>trace := trace world_cached @ [Call_fetchRemoteVersion]\<rparr>"
    have t: "smartSync_try env_ok (Inl RemoteFailure) (Inl RemoteFailure) world_cached
        = (Inl RemoteFailure, ?w1)"
      by (rule version_fetch_throws)
    from reads [of ?w1] obtain w2 w3 where
      b: "getCachedBusinesses env_ok ?w1 = (Inr [shop ''old''], w2)" and
      c: "getCachedCategories env_ok w2 = (Inr [kirana], w3)" by auto
    from fallback_when_reads_return [OF t b c] t b c show ?thesis
      by (auto simp: world_cached_businesses world_cached_categories)
  qed
  have two: "\<exists>w1 w2 w3.
     smartSync_try env_ok (Inr version_jan2) (Inl RemoteFailure) world_cached = (Inl RemoteFailure, w1) \<and>
     getCachedBusinesses env_ok w1 = (Inr [shop ''old''], w2) \<and>
     getCachedCategories env_ok w2 = (Inr [kirana], w3) \<and>
     smartSync env_ok (Inr version_jan2) (Inl RemoteFailure) world_cached =
       (Inr \<lparr>action = no_change, businesses = [shop ''old''], categories = [kirana],
             fromCache = True\<rparr>, w3)"
  proof -
    let ?w1 = "world_cached\<lparr>trace := [Call_fetchRemoteVersion, Call_fetchAllData],
                 dbInstance := True, idb_requests := 2\<rparr>"
    have t: "smartSync_try env_ok (Inr version_jan2) (Inl RemoteFailure) world_cached
        = (Inl RemoteFailure, ?w1)"
      using db tr rq world_cached_version
      by (simp add: smartSync_try_def andThen_def call_accessor_def checkSyncNeeded_def
            getLocalVersion_run [OF no_faults_env_ok] ret_def version_jan1_def version_jan2_def)
    from reads [of ?w1] obtain w2 w3 where
      b: "getCachedBusinesses env_ok ?w1 = (Inr [shop ''old''], w2)" and
      c: "getCachedCategories env_ok w2 = (Inr [kirana], w3)" by auto
    from fallback_when_reads_return [OF t b c] t b c show ?thesis
      by (auto simp: world_cached_businesses world_cached_categories)
  qed
  have three: "\<exists>w1 w2 w3.
     smartSync_try env_flaky (Inr version_jan2) (Inr ([shop ''b1''], [kirana])) world_cached
       = (Inl StoreFailure, w1) \<and>
     getCachedBusinesses env_flaky w1 = (Inr [shop ''old''], w2) \<and>
     getCachedCategories env_flaky w2 = (Inr [kirana], w3) \<and>
     smartSync env_flaky (Inr version_jan2) (Inr ([shop ''b1''], [kirana])) world_cached =
       (Inr \<lparr>action = no_change, businesses = [shop ''old''], categories = [kirana],
             fromCache = True\<rparr>, w3)"
  proof -
    let ?w1 = "world_cached\<lparr>trace := [Call_fetchRemoteVersion], dbInstance := True,
                 idb_requests := 2\<rparr>"
    have t: "smartSync_try env_flaky (Inr version_jan2) (Inr ([shop ''b1''], [kirana])) world_cached
        = (Inl StoreFailure, ?w1)"
      using db tr rq
      by (simp add: smartSync_try_def andThen_def call_accessor_def checkSyncNeeded_def
            getLocalVersion_def getMetadata_def initDB_def idb_request_def env_flaky_def Let_def)
    have b: "getCachedBusinesses env_flaky ?w1 =
        (Inr [shop ''old''], ?w1\<lparr>idb_requests := 3\<rparr>)"
      using world_cached_businesses
      by (simp add: getCachedBusinesses_def andThen_def initDB_def idb_request_def env_flaky_def
            Let_def ret_def)
    have c: "getCachedCategories env_flaky (?w1\<lparr>idb_requests := 3\<rparr>) =
        (Inr [kirana], ?w1\<lparr>idb_requests := 4\<rparr>)"
      using world_cached_categories
      by (simp add: getCachedCategories_def andThen_def initDB_def idb_request_def env_flaky_def
            Let_def ret_def)
    from fallback_when_reads_return [OF t b c] t b c show ?thesis
      by (auto simp: world_cached_businesses world_cached_categories)
  qed
  from one two three show ?thesis by blast
qed

text \<open>
  Claim C3: when a step of the sync fails, \<^verbatim>\<open>smartSync\<close> is to return what the local
  store holds, and no exception is to escape. The \<^verbatim>\<open>catch\<close> block, commented
  ``Fallback to cache on error'', reads the cache with two calls that it does not guard,
  where the caller of \<^verbatim>\<open>smartSync\<close> guards the same two calls with a \<^verbatim>\<open>catch\<close> that
  yields empty lists. So the claim fails on the code: with a database that cannot be
  opened, the read of the local version throws in the \<^verbatim>\<open>try\<close> block, or the version
  fetch throws before it; the read of the cached businesses throws again in the
  \<^verbatim>\<open>catch\<close> block, and \<^verbatim>\<open>smartSync\<close> throws.
\<close>

theorem fallback_read_failure_escapes:
  "fst (smartSync_try env_down (Inr version_jan2) (Inr ([shop ''b1''], [kirana])) world_cached)
     = Inl StoreFailure \<and>
   fst (smartSync env_down (Inr version_jan2) (Inr ([shop ''b1''], [kirana])) world_cached)
     = Inl StoreFailure \<and>
   fst (smartSync_try env_down (Inl RemoteFailure) (Inr ([shop ''b1''], [kirana])) world_empty)
     = Inl RemoteFailure \<and>
   fst (smartSync env_down (Inl RemoteFailure) (Inr ([shop ''b1''], [kirana])) world_empty)
     = Inl StoreFailure"
  by (simp add: smartSync_def try_catch_def smartSync_try_def smartSync_catch_def andThen_def
        call_accessor_def checkSyncNeeded_def getLocalVersion_def getMetadata_def initDB_def
        idb_request_def promise_all2_def getCachedBusinesses_def getCachedCategories_def
        env_down_def world_cached_def world_empty_def)

theorem action_never_incremental_witness:
  "\<exists>a w1 r w2.
     checkSyncNeeded env_ok version_jan2 world_cached = (Inr a, w1) \<and>
     (a = no_change \<or> a = full_sync) \<and>
     smartSync env_ok (Inr version_jan1) (Inl RemoteFailure) world_cached = (Inr r, w2) \<and>
     (action r = no_change \<or> action r = full_sync)"
proof -
  obtain a w1 where k: "checkSyncNeeded env_ok version_jan2 world_cached = (Inr a, w1)"
    by (simp add: checkSyncNeeded_def andThen_def getLocalVersion_run [OF no_faults_env_ok]
          world_cached_version ret_def version_jan1_def version_jan2_def)
  have "fst (smartSync env_ok (Inr version_jan1) (Inl RemoteFailure) world_cached) =
      Inr \<lparr>action = no_change, businesses = [shop ''old''], categories = [kirana], fromCache = True\<rparr>"
    using smartSync_unchanged_ok [OF world_cached_version _ _ no_faults_env_ok, of version_jan1]
    by (simp add: world_cached_businesses world_cached_categories)
  then obtain r w2 where s: "smartSync env_ok (Inr version_jan1) (Inl RemoteFailure) world_cached = (Inr r, w2)"
    by (metis prod.collapse)
  from action_never_incremental [of env_ok version_jan2 world_cached "Inr version_jan1" "Inl RemoteFailure"] k s
  show ?thesis by blast
qed

section \<open>Properties of the remote data version\<close>

lemma getDataVersion_failed:
  assumes "count_query_failed countQuery \<or> updated_query_failed updatedQuery"
  shows "getDataVersion countQuery updatedQuery stamp now =
           Inr \<lparr>business_count = 0, last_updated = stamp, last_sync = now\<rparr>"
  using assms
  by (auto simp: getDataVersion_def getDataVersion_try_def count_query_failed_def
        updated_query_failed_def split: sum.splits option.splits)

lemma getDataVersion_returns:
  "\<exists>v. getDataVersion countQuery updatedQuery stamp now = Inr v"
  by (simp add: getDataVersion_def split: sum.splits)

text \<open>
  Claim C9. \<^verbatim>\<open>getDataVersion\<close> returns a descriptor whatever the outcomes of its two
  queries are. When the count query or the query for the latest \<^verbatim>\<open>updated_at\<close> has
  failed, the descriptor has \<^verbatim>\<open>business_count = 0\<close> and the current time as
  \<^verbatim>\<open>last_updated\<close>. The reconciler receives it as a remote descriptor: against a stored
  local descriptor that records a dataset that is not empty (a count other than 0),
  \<^verbatim>\<open>checkSyncNeeded\<close> never answers \<^verbatim>\<open>no_change\<close>, and answers \<^verbatim>\<open>full_sync\<close>
  when no request to IndexedDB fails.
\<close>

theorem getDataVersion_never_throws:
  "(\<exists>v. getDataVersion countQuery updatedQuery stamp now = Inr v) \<and>
   (count_query_failed countQuery \<or> updated_query_failed updatedQuery \<longrightarrow>
      getDataVersion countQuery updatedQuery stamp now =
        Inr \<lparr>business_count = 0, last_updated = stamp, last_sync = now\<rparr>) \<and>
   (\<forall>e w m r w'.
      store_get ''data_version'' (metadata_store w) = Some m \<longrightarrow>
      business_count (val m) \<noteq> 0 \<longrightarrow>
      checkSyncNeeded e \<lparr>business_count = 0, last_updated = stamp, last_sync = now\<rparr> w = (r, w') \<longrightarrow>
      r \<noteq> Inr no_change \<and> (no_faults e \<longrightarrow> r = Inr full_sync))"
proof (intro conjI allI impI)
  show "\<exists>v. getDataVersion countQuery updatedQuery stamp now = Inr v"
    by (rule getDataVersion_returns)
next
  assume "count_query_failed countQuery \<or> updated_query_failed updatedQuery"
  then show "getDataVersion countQuery updatedQuery stamp now =
        Inr \<lparr>business_count = 0, last_updated = stamp, last_sync = now\<rparr>"
    by (rule getDataVersion_failed)
next
  fix e w m r w'
  assume m: "store_get ''data_version'' (metadata_store w) = Some m"
    and n: "business_count (val m) \<noteq> 0"
    and k: "checkSyncNeeded e \<lparr>business_count = 0, last_updated = stamp, last_sync = now\<rparr> w = (r, w')"
  from checkSyncNeeded_any [OF k] m n show "r \<noteq> Inr no_change" by auto
next
  fix e w m r w'
  assume m: "store_get ''data_version'' (metadata_store w) = Some m"
    and n: "business_count (val m) \<noteq> 0"
    and k: "checkSyncNeeded e \<lparr>business_count = 0, last_updated = stamp, last_sync = now\<rparr> w = (r, w')"
    and nf: "no_faults e"
  from k m n show "r = Inr full_sync"
    by (auto simp: checkSyncNeeded_def andThen_def getLocalVersion_run [OF nf] ret_def)
qed

theorem getDataVersion_never_throws_witness:
  "count_query_failed (Inl RemoteFailure) \<and>
   getDataVersion (Inl RemoteFailure) (Inl RemoteFailure) ''2024-03-01T10:00:00.000Z'' 1709287200000 =
     Inr \<lparr>business_count = 0, last_updated = ''2024-03-01T10:00:00.000Z'',
           last_sync = 1709287200000\<rparr> \<and>
   updated_query_failed
     (Inr \<lparr>resp_data = None, resp_count = None, resp_error = Some \<lparr>code = ''57014''\<rparr>\<rparr>) \<and>
   getDataVersion (Inr \<lparr>resp_data = None, resp_count = Some 12, resp_error = None\<rparr>)
     (Inr \<lparr>resp_data = None, resp_count = None, resp_error = Some \<lparr>code = ''57014''\<rparr>\<rparr>)
     ''2024-03-01T10:00:00.000Z'' 1709287200000 =
     Inr \<lparr>business_count = 0, last_updated = ''2024-03-01T10:00:00.000Z'',
           last_sync = 1709287200000\<rparr> \<and>
   store_get ''data_version'' (metadata_store world_cached) =
     Some \<lparr>key = ''data_version'', val = version_jan1, updated_at = 4\<rparr> \<and>
   business_count version_jan1 \<noteq> 0 \<and> no_faults env_ok \<and>
   fst (checkSyncNeeded env_ok
     \<lparr>business_count = 0, last_updated = ''2024-03-01T10:00:00.000Z'', last_sync = 1709287200000\<rparr>
     world_cached) = Inr full_sync"
proof -
  have f1: "count_query_failed (Inl RemoteFailure)"
    by (simp add: count_query_failed_def)
  have f2: "updated_query_failed
     (Inr \<lparr>resp_data = None, resp_count = None, resp_error = Some \<lparr>code = ''57014''\<rparr>\<rparr>)"
    by (simp add: updated_query_failed_def)
  have n: "business_count (val \<lparr>key = ''data_version'', val = version_jan1, updated_at = 4\<rparr>) \<noteq> 0"
    by (simp add: version_jan1_def)
  obtain r w' where k: "checkSyncNeeded env_ok
     \<lparr>business_count = 0, last_updated = ''2024-03-01T10:00:00.000Z'', last_sync = 1709287200000\<rparr>
     world_cached = (r, w')" by force
  note t = getDataVersion_never_throws
  from t [of "Inl RemoteFailure" "Inl RemoteFailure" "''2024-03-01T10:00:00.000Z''" 1709287200000] f1
  have a: "getDataVersion (Inl RemoteFailure) (Inl RemoteFailure) ''2024-03-01T10:00:00.000Z'' 1709287200000 =
     Inr \<lparr>business_count = 0, last_updated = ''2024-03-01T10:00:00.000Z'',
           last_sync = 1709287200000\<rparr>" by blast
  from t [of "Inr \<lparr>resp_data = None, resp_count = Some 12, resp_error = None\<rparr>"
     "Inr \<lparr>resp_data = None, resp_count = None, resp_error = Some \<lparr>code = ''57014''\<rparr>\<rparr>"
     "''2024-03-01T10:00:00.000Z''" 1709287200000] f2
  have b: "getDataVersion (Inr \<lparr>resp_data = None, resp_count = Some 12, resp_error = None\<rparr>)
     (Inr \<lparr>resp_data = None, resp_count = None, resp_error = Some \<lparr>code = ''57014''\<rparr>\<rparr>)
     ''2024-03-01T10:00:00.000Z'' 1709287200000 =
     Inr \<lparr>business_count = 0, last_updated = ''2024-03-01T10:00:00.000Z'',
           last_sync = 1709287200000\<rparr>" by blast
  from t [of "Inl RemoteFailure" "Inl RemoteFailure" "''2024-03-01T10:00:00.000Z''" 1709287200000]
    world_cached_version n k no_faults_env_ok
  have c: "r = Inr full_sync" by blast
  from f1 f2 a b c k n world_cached_version no_faults_env_ok show ?thesis by simp
qed

section \<open>Properties of the tracking service\<close>

lemma queueEvent_disabled: "\<not> isAnalyticsEnabled c \<Longrightarrow> queueEvent c tbl d s = s"
  by (simp add: queueEvent_def)

lemma enqueue_all_disabled: "\<not> isAnalyticsEnabled c \<Longrightarrow> enqueue_all c evs s = s"
  unfolding enqueue_all_def
  by (induction evs arbitrary: s) (simp_all add: queueEvent_disabled)

text \<open>
  Claim C7. When analytics is not configured, queueing events changes nothing, however
  many are queued and whatever the state is; from the initial state of the module the
  queue stays empty and no timeout is ever set.
\<close>

theorem disabled_enqueue_is_noop:
  assumes "\<not> isAnalyticsEnabled c"
  shows "enqueue_all c evs s = s \<and>
         length (eventQueue (enqueue_all c evs initial_batcher)) = 0 \<and>
         timers (enqueue_all c evs initial_batcher) = [] \<and>
         flushTimeout (enqueue_all c evs initial_batcher) = None"
  using assms by (simp add: enqueue_all_disabled initial_batcher_def)

lemma cfg_off_disabled: "\<not> isAnalyticsEnabled cfg_off"
  by (simp add: isAnalyticsEnabled_def cfg_off_def)

lemma cfg_on_enabled: "isAnalyticsEnabled cfg_on"
  by (simp add: isAnalyticsEnabled_def cfg_on_def)

theorem disabled_enqueue_is_noop_witness:
  "\<not> isAnalyticsEnabled cfg_off \<and>
   enqueue_all cfg_off nine_visits (initial_batcher :: nat batcher) = initial_batcher \<and>
   length (eventQueue (enqueue_all cfg_off (nine_visits @ nine_visits) initial_batcher)) = 0 \<and>
   timers (enqueue_all cfg_off (nine_visits @ nine_visits) initial_batcher) = []"
  using disabled_enqueue_is_noop [OF cfg_off_disabled, of nine_visits initial_batcher]
    disabled_enqueue_is_noop [OF cfg_off_disabled, of "nine_visits @ nine_visits" initial_batcher]
    cfg_off_disabled
  by (simp add: initial_batcher_def)

lemma client_iff_enabled: "(analyticsClient c = None) = (\<not> isAnalyticsEnabled c)"
  by (simp add: analyticsClient_def)

lemma map_filter_snoc: "List.map_filter f (xs @ [x]) =
    List.map_filter f xs @ (case f x of None \<Rightarrow> [] | Some y \<Rightarrow> [y])"
  by (simp add: List.map_filter_def split: option.splits)

lemma after_events_snoc:
  "after_events t0 (evs @ [ev]) = handle_event ev (after_events t0 evs)"
  by (simp add: after_events_def)

lemma isTabActive_after_events:
  "isTabActive (after_events t0 evs) = (\<not> document_hidden False evs)"
proof (induction evs rule: rev_induct)
  case Nil
  then show ?case
    by (simp add: after_events_def presence_at_load_def document_hidden_def List.map_filter_def)
next
  case (snoc ev evs)
  then show ?case
    by (cases ev)
       (simp_all add: after_events_snoc document_hidden_def map_filter_snoc on_activity_def
          on_visibilitychange_def Let_def)
qed

lemma lastActivity_after_events:
  "lastActivity (after_events t0 evs) = last_activity t0 evs"
proof (induction evs rule: rev_induct)
  case Nil
  then show ?case
    by (simp add: after_events_def presence_at_load_def last_activity_def List.map_filter_def)
next
  case (snoc ev evs)
  then show ?case
    by (cases ev)
       (simp_all add: after_events_snoc last_activity_def map_filter_snoc on_activity_def
          on_visibilitychange_def Let_def)
qed

text \<open>
  Claim C8, as amended. \<^verbatim>\<open>sendPing\<close> issues the upsert of the row of the device into
  \<^verbatim>\<open>live_users\<close>, with \<^verbatim>\<open>device_id\<close> as the conflict column, if and only if
  analytics is enabled, \<^verbatim>\<open>isTabActive\<close> is set and \<^verbatim>\<open>lastActivity\<close> is at most
  10000 ms old; otherwise it does nothing at all. After the module has been loaded at
  \<open>t0\<close> and its listeners have handled any sequence of events, \<^verbatim>\<open>isTabActive\<close> says
  whether the document would be visible had it been visible at the load (it is set until
  a \<^verbatim>\<open>visibilitychange\<close> event reports the document hidden, and follows the events
  from then on), and \<^verbatim>\<open>lastActivity\<close> is the time of the most recent of: the load, a
  user interaction, the tab becoming visible.
\<close>

theorem ping_follows_module_record:
  "(let s = after_events t0 evs
    in isTabActive s = (\<not> document_hidden False evs) \<and>
       lastActivity s = last_activity t0 evs \<and>
       sendPing c now stamp deviceId userName s =
         (if isAnalyticsEnabled c \<and> \<not> document_hidden False evs \<and>
             now - last_activity t0 evs \<le> 10000
          then s\<lparr>upserts := upserts s @
                 [(''live_users'',
                   \<lparr>device_id = deviceId, user_name = userName, is_active = True,
                      last_ping = stamp\<rparr>,
                   ''device_id'')]\<rparr>
          else s)) \<and>
   (isAnalyticsEnabled c \<and> isTabActive s \<and> now - lastActivity s \<le> 10000 \<longrightarrow>
      sendPing c now stamp deviceId userName s =
        s\<lparr>upserts := upserts s @
           [(''live_users'',
             \<lparr>device_id = deviceId, user_name = userName, is_active = True, last_ping = stamp\<rparr>,
             ''device_id'')]\<rparr>) \<and>
   (\<not> (isAnalyticsEnabled c \<and> isTabActive s \<and> now - lastActivity s \<le> 10000) \<longrightarrow>
      sendPing c now stamp deviceId userName s = s)"
proof -
  let ?s = "after_events t0 evs"
  let ?row = "(''live_users'',
     \<lparr>device_id = deviceId, user_name = userName, is_active = True, last_ping = stamp\<rparr>,
     ''device_id'')"
  have guard: "sendPing c now stamp deviceId userName x =
      (if isAnalyticsEnabled c \<and> isTabActive x \<and> now - lastActivity x \<le> 10000
       then x\<lparr>upserts := upserts x @ [?row]\<rparr> else x)" for x
    by (simp add: sendPing_def safeAnalyticsOperation_def client_iff_enabled MIN_ACTIVITY_GAP_def)
  have "sendPing c now stamp deviceId userName ?s =
      (if isAnalyticsEnabled c \<and> \<not> document_hidden False evs \<and>
          now - last_activity t0 evs \<le> 10000
       then ?s\<lparr>upserts := upserts ?s @ [?row]\<rparr> else ?s)"
    using guard [of ?s] by (simp add: isTabActive_after_events lastActivity_after_events)
  then show ?thesis
    using guard [of s]
    by (simp add: isTabActive_after_events lastActivity_after_events Let_def)
qed

theorem ping_follows_module_record_witness:
  "isAnalyticsEnabled cfg_on \<and> \<not> document_hidden False tab_shown_again \<and>
   last_activity 1700000000000 tab_shown_again = 1700000100000 \<and>
   1700000101000 - last_activity 1700000000000 tab_shown_again \<le> 10000 \<and>
   upserts (sendPing cfg_on 1700000101000 ''2023-11-15T00:00:01.000Z'' ''device_1'' None
              (after_events 1700000000000 tab_shown_again)) =
     [(''live_users'',
       \<lparr>device_id = ''device_1'', user_name = None, is_active = True,
          last_ping = ''2023-11-15T00:00:01.000Z''\<rparr>, ''device_id'')] \<and>
   \<not> (1700000111000 - last_activity 1700000000000 tab_shown_again \<le> 10000) \<and>
   sendPing cfg_on 1700000111000 ''2023-11-15T00:00:11.000Z'' ''device_1'' None
     (after_events 1700000000000 tab_shown_again) = after_events 1700000000000 tab_shown_again \<and>
   document_hidden False (take 2 tab_shown_again) \<and>
   sendPing cfg_on 1700000003000 ''2023-11-14T22:13:23.000Z'' ''device_1'' None
     (after_events 1700000000000 (take 2 tab_shown_again))
     = after_events 1700000000000 (take 2 tab_shown_again) \<and>
   \<not> isAnalyticsEnabled cfg_off \<and>
   sendPing cfg_off 1700000101000 ''2023-11-15T00:00:01.000Z'' ''device_1'' None
     (after_events 1700000000000 tab_shown_again) = after_events 1700000000000 tab_shown_again"
proof -
  have h: "\<not> document_hidden False tab_shown_again"
    and h2: "document_hidden False (take 2 tab_shown_again)"
    and a: "last_activity 1700000000000 tab_shown_again = 1700000100000"
    and a2: "last_activity 1700000000000 (take 2 tab_shown_again) = 1700000001000"
    by (simp_all add: document_hidden_def last_activity_def tab_shown_again_def)
  have u: "upserts (after_events 1700000000000 tab_shown_again) = []"
    by (simp add: after_events_def presence_at_load_def tab_shown_again_def on_activity_def
          on_visibilitychange_def Let_def)
  note t = ping_follows_module_record [unfolded Let_def]
  from t [of 1700000000000 tab_shown_again cfg_on 1700000101000
        "''2023-11-15T00:00:01.000Z''" "''device_1''" None]
    t [of 1700000000000 tab_shown_again cfg_on 1700000111000
        "''2023-11-15T00:00:11.000Z''" "''device_1''" None]
    t [of 1700000000000 "take 2 tab_shown_again" cfg_on 1700000003000
        "''2023-11-14T22:13:23.000Z''" "''device_1''" None]
    t [of 1700000000000 tab_shown_again cfg_off 1700000101000
        "''2023-11-15T00:00:01.000Z''" "''device_1''" None]
  show ?thesis
    using cfg_on_enabled cfg_off_disabled h h2 a a2 u by simp
qed

text \<open>
  Claim C8, as stated, fails in its ``only if'' half. A page that is loaded hidden and
  left alone issues a ping five seconds after the load: the document is hidden and no user
  interaction has taken place. And a page whose tab is shown again issues a ping one second
  later, 100 seconds after the most recent user interaction.
\<close>

theorem ping_without_visibility_or_interaction:
  "document_hidden True [] \<and> last_interaction [] = None \<and>
   upserts (sendPing cfg_on 1700000005000 ''2023-11-14T22:13:25.000Z'' ''device_1'' None
              (after_events 1700000000000 [])) =
     [(''live_users'',
       \<lparr>device_id = ''device_1'', user_name = None, is_active = True,
          last_ping = ''2023-11-14T22:13:25.000Z''\<rparr>, ''device_id'')] \<and>
   \<not> document_hidden False tab_shown_again \<and>
   last_interaction tab_shown_again = Some 1700000001000 \<and>
   \<not> (1700000101000 - 1700000001000 \<le> (10000 :: int)) \<and>
   upserts (sendPing cfg_on 1700000101000 ''2023-11-15T00:00:01.000Z'' ''device_1'' None
              (after_events 1700000000000 tab_shown_again)) =
     [(''live_users'',
       \<lparr>device_id = ''device_1'', user_name = None, is_active = True,
          last_ping = ''2023-11-15T00:00:01.000Z''\<rparr>, ''device_id'')]"
  by (simp add: document_hidden_def last_interaction_def tab_shown_again_def
        after_events_def presence_at_load_def on_activity_def on_visibilitychange_def Let_def
        sendPing_def safeAnalyticsOperation_def client_iff_enabled cfg_on_enabled
        MIN_ACTIVITY_GAP_def)

subsection \<open>Timeouts and the size threshold\<close>

lemma issue_next_frame:
  "eventQueue (issue_next c k b ts s) = eventQueue s \<and>
   flushed (issue_next c k b ts s) = flushed s \<and>
   timers (issue_next c k b ts s) = timers s \<and>
   flushTimeout (issue_next c k b ts s) = flushTimeout s \<and>
   next_timer (issue_next c k b ts s) = next_timer s"
  by (induction ts arbitrary: s) (simp_all add: Let_def)

lemma flushEvents_enabled:
  assumes "isAnalyticsEnabled c" and "eventQueue s \<noteq> []"
  shows "flushEvents c s =
     issue_next c (length (flushed s)) (eventQueue s) group_tables
       (s\<lparr>eventQueue := [], flushed := flushed s @ [eventQueue s]\<rparr>)"
  using assms
  by (simp add: flushEvents_def safeAnalyticsOperation_def client_iff_enabled Let_def)

lemma flushEvents_empty: "eventQueue s = [] \<Longrightarrow> flushEvents c s = s"
  by (simp add: flushEvents_def)

lemma scheduleFlush_one_timer:
  assumes "at_most_one_timer s"
  shows "scheduleFlush s =
     s\<lparr>flushTimeout := Some (next_timer s), timers := [next_timer s],
        next_timer := Suc (next_timer s)\<rparr>"
  using assms
  by (auto simp: scheduleFlush_def at_most_one_timer_def clearTimeout_def Let_def
      split: option.splits)

lemma queueEvent_below:
  assumes "isAnalyticsEnabled c" and "at_most_one_timer s"
    and "Suc (length (eventQueue s)) < MAX_QUEUE_SIZE"
  shows "queueEvent c tbl d s =
     s\<lparr>eventQueue := eventQueue s @ [\<lparr>table = tbl, data = d\<rparr>],
        flushTimeout := Some (next_timer s), timers := [next_timer s],
        next_timer := Suc (next_timer s)\<rparr>"
proof -
  let ?s1 = "s\<lparr>eventQueue := eventQueue s @ [\<lparr>table = tbl, data = d\<rparr>]\<rparr>"
  have "at_most_one_timer ?s1"
    using assms(2) by (auto simp: at_most_one_timer_def split: option.splits)
  from scheduleFlush_one_timer [OF this] assms(1,3) show ?thesis
    by (simp add: queueEvent_def Let_def)
qed

lemma enqueue_all_below:
  assumes "isAnalyticsEnabled c"
  shows "at_most_one_timer s \<Longrightarrow> length (eventQueue s) + length evs < MAX_QUEUE_SIZE \<Longrightarrow>
     evs \<noteq> [] \<Longrightarrow>
     enqueue_all c evs s =
       s\<lparr>eventQueue := eventQueue s @ evs,
          flushTimeout := Some (next_timer s + length evs - 1),
          timers := [next_timer s + length evs - 1],
          next_timer := next_timer s + length evs\<rparr>"
proof (induction evs arbitrary: s)
  case Nil
  then show ?case by simp
next
  case (Cons ev evs)
  let ?s1 = "queueEvent c (table ev) (data ev) s"
  have below: "Suc (length (eventQueue s)) < MAX_QUEUE_SIZE" using Cons.prems(2) by simp
  note s1 = queueEvent_below [OF assms Cons.prems(1) below, of "table ev" "data ev"]
  have inv: "at_most_one_timer ?s1" by (simp add: s1 at_most_one_timer_def)
  have len: "length (eventQueue ?s1) + length evs < MAX_QUEUE_SIZE"
    using Cons.prems(2) by (simp add: s1)
  have unfold: "enqueue_all c (ev # evs) s = enqueue_all c evs ?s1"
    by (simp add: enqueue_all_def)
  show ?case
  proof (cases "evs = []")
    case True
    then show ?thesis by (simp add: unfold enqueue_all_def s1)
  next
    case False
    from Cons.IH [OF inv len False] show ?thesis
      by (simp add: unfold s1)
  qed
qed

text \<open>
  Claim C4, as amended. With analytics enabled, from the initial state of the module:
  after N events, 0 < N < 10, have been queued, exactly one timeout is pending, the one
  that the last call of \<^verbatim>\<open>queueEvent\<close> has set (handles count from 1, so its handle is
  N), the N events are in the queue and nothing has been flushed. The 10th event is
  flushed at once together with the 9 queued before it, and the timeout that the 9th call
  had set stays pending: \<^verbatim>\<open>flushEvents\<close> clears no timeout. When it fires with the queue
  still empty, it only leaves the table of timeouts.
\<close>

theorem threshold_flush_keeps_timer:
  assumes "isAnalyticsEnabled c"
  shows "MAX_QUEUE_SIZE = 10 \<and>
     (0 < length evs \<and> length evs < 10 \<longrightarrow>
        (let s = enqueue_all c evs initial_batcher
         in timers s = [length evs] \<and> flushTimeout s = Some (length evs) \<and>
            eventQueue s = evs \<and> flushed s = [])) \<and>
     (length evs = 9 \<longrightarrow>
        (let s9 = enqueue_all c evs initial_batcher;
             s10 = queueEvent c tbl d s9
         in timers s9 = [9] \<and>
            eventQueue s10 = [] \<and> flushed s10 = [evs @ [\<lparr>table = tbl, data = d\<rparr>] ] \<and>
            timers s10 = [9] \<and> flushTimeout s10 = Some 9 \<and>
            timer_fires c 9 s10 = s10\<lparr>timers := []\<rparr>))"
proof -
  have init: "at_most_one_timer (initial_batcher :: 'a batcher)"
    by (simp add: at_most_one_timer_def initial_batcher_def)
  have below: "enqueue_all c evs initial_batcher =
       initial_batcher\<lparr>eventQueue := evs, flushTimeout := Some (length evs),
          timers := [length evs], next_timer := Suc (length evs)\<rparr>"
    if "0 < length evs" "length evs < 10"
    using enqueue_all_below [OF assms init, of evs] that
    by (simp add: MAX_QUEUE_SIZE_def initial_batcher_def)
  have part1: "let s = enqueue_all c evs initial_batcher
         in timers s = [length evs] \<and> flushTimeout s = Some (length evs) \<and>
            eventQueue s = evs \<and> flushed s = []"
    if "0 < length evs \<and> length evs < 10"
    using below that by (simp add: initial_batcher_def)
  have part2: "let s9 = enqueue_all c evs initial_batcher;
             s10 = queueEvent c tbl d s9
         in timers s9 = [9] \<and>
            eventQueue s10 = [] \<and> flushed s10 = [evs @ [\<lparr>table = tbl, data = d\<rparr>] ] \<and>
            timers s10 = [9] \<and> flushTimeout s10 = Some 9 \<and>
            timer_fires c 9 s10 = s10\<lparr>timers := []\<rparr>"
    if nine: "length evs = 9"
  proof -
    let ?s9 = "initial_batcher\<lparr>eventQueue := evs, flushTimeout := Some 9,
          timers := [9], next_timer := 10\<rparr> :: 'a batcher"
    have s9: "enqueue_all c evs initial_batcher = ?s9" using below nine by simp
    let ?q = "evs @ [\<lparr>table = tbl, data = d\<rparr>]"
    let ?s10 = "issue_next c 0 ?q group_tables (?s9\<lparr>eventQueue := [], flushed := [?q]\<rparr>)"
    have s10: "queueEvent c tbl d ?s9 = ?s10"
      using assms nine
      by (simp add: queueEvent_def Let_def MAX_QUEUE_SIZE_def flushEvents_enabled
            initial_batcher_def)
    have fire: "timer_fires c 9 ?s10 = ?s10\<lparr>timers := []\<rparr>"
      by (simp add: timer_fires_def issue_next_frame flushEvents_empty)
    show ?thesis
      unfolding s9 Let_def s10 using fire
      by (simp add: issue_next_frame)
  qed
  from part1 part2 show ?thesis by (simp add: MAX_QUEUE_SIZE_def)
qed

lemma nine_visits_length: "length nine_visits = 9"
  by (simp add: nine_visits_def)

theorem threshold_flush_keeps_timer_witness:
  "isAnalyticsEnabled cfg_on \<and> 0 < length nine_visits \<and> length nine_visits < 10 \<and>
   length nine_visits = 9 \<and>
   timers (enqueue_all cfg_on nine_visits initial_batcher) = [9] \<and>
   flushTimeout (enqueue_all cfg_on nine_visits initial_batcher) = Some 9 \<and>
   eventQueue (enqueue_all cfg_on nine_visits initial_batcher) = nine_visits \<and>
   eventQueue (queueEvent cfg_on ''visit_logs'' 10 (enqueue_all cfg_on nine_visits initial_batcher)) = [] \<and>
   flushed (queueEvent cfg_on ''visit_logs'' 10 (enqueue_all cfg_on nine_visits initial_batcher))
     = [nine_visits @ [visit 10] ] \<and>
   timers (queueEvent cfg_on ''visit_logs'' 10 (enqueue_all cfg_on nine_visits initial_batcher)) = [9]"
  using threshold_flush_keeps_timer [OF cfg_on_enabled, of nine_visits "''visit_logs''" 10]
    cfg_on_enabled nine_visits_length
  by (simp add: Let_def visit_def MAX_QUEUE_SIZE_def)

text \<open>
  Claim C4, as stated, fails in its last part: after nine events and a tenth one, the
  flush has taken place (the queue is empty and the insert of the ten rows is issued), and
  the timeout with handle 9 is still pending.
\<close>

theorem tenth_event_leaves_timer_pending:
  "timers (enqueue_all cfg_on nine_visits initial_batcher) = [9] \<and>
   eventQueue (queueEvent cfg_on ''visit_logs'' 10 (enqueue_all cfg_on nine_visits initial_batcher)) = [] \<and>
   inserts (queueEvent cfg_on ''visit_logs'' 10 (enqueue_all cfg_on nine_visits initial_batcher))
     = [(0, ''visit_logs'', [1, 2, 3, 4, 5, 6, 7, 8, 9, 10])] \<and>
   timers (queueEvent cfg_on ''visit_logs'' 10 (enqueue_all cfg_on nine_visits initial_batcher)) = [9]"
  by (simp add: enqueue_all_def nine_visits_def visit_def queueEvent_def cfg_on_enabled
        scheduleFlush_def clearTimeout_def flushEvents_def safeAnalyticsOperation_def
        client_iff_enabled initial_batcher_def MAX_QUEUE_SIZE_def group_tables_def Let_def)

subsection \<open>Flushes and events queued while they are in flight\<close>
















lemma run_append: "run c (os1 @ os2) s = run c os2 (run c os1 s)"
  by (simp add: run_def)







end
